theory Spec2Isabelle
  imports Main "HOL-Library.Word"
begin

unbundle bit_operations_syntax

section \<open>result.hpp: the error taxonomy and the result type\<close>

text \<open>
  \<^verbatim>\<open>enum struct ErrorType : u8\<close> of \<^verbatim>\<open>struct Error\<close>: seventeen enumerators, in the order of
  the source.
\<close>

datatype ErrorType =
    ARITHMETIC_ERROR
  | FLOATING_POINT_ERROR
  | OVERFLOW_ERROR
  | ZERO_DIVISION_ERROR
  | ASSERTION_ERROR
  | ATTRIBUTE_ERROR
  | INDEX_ERROR
  | KEY_ERROR
  | OS_ERROR
  | TIMEOUT_ERROR
  | RUNTIME_ERROR
  | NOT_IMPLEMENTED_ERROR
  | SYNTAX_ERROR
  | SYSTEM_ERROR
  | TYPE_ERROR
  | VALUE_ERROR
  | GENERIC_ERROR

text \<open>
  \<^verbatim>\<open>struct Error { str message; ErrorType type; }\<close>. The field \<^verbatim>\<open>type\<close> is called
  \<open>etype\<close> here. A \<^verbatim>\<open>str\<close> is a C string, modelled by the list of its characters before
  the terminator.
\<close>

record Error =
  message :: string
  etype :: ErrorType

text \<open>The three constructors of \<^verbatim>\<open>Error\<close>.\<close>

definition Error_default :: Error where
  "Error_default = \<lparr>message = [], etype = GENERIC_ERROR\<rparr>"

definition Error_ctor :: "string \<Rightarrow> ErrorType \<Rightarrow> Error" where
  "Error_ctor msg typ = \<lparr>message = msg, etype = typ\<rparr>"

definition Error_of_msg :: "string \<Rightarrow> Error" where
  "Error_of_msg msg = \<lparr>message = msg, etype = GENERIC_ERROR\<rparr>"

text \<open>
  The static \<^verbatim>\<open>Error::toStr( ErrorType typ )\<close>: one \<^verbatim>\<open>case\<close> of the \<^verbatim>\<open>switch\<close> per
  equation. The \<^verbatim>\<open>default: std::unreachable()\<close> branch has no enumerator that reaches it.
\<close>

fun toStr :: "ErrorType \<Rightarrow> string" where
  "toStr ARITHMETIC_ERROR = ''ArithmeticError''"
| "toStr FLOATING_POINT_ERROR = ''FloatingPointError''"
| "toStr OVERFLOW_ERROR = ''OverflowError''"
| "toStr ZERO_DIVISION_ERROR = ''ZeroDivisionError''"
| "toStr ASSERTION_ERROR = ''AssertionError''"
| "toStr ATTRIBUTE_ERROR = ''AttributeError''"
| "toStr INDEX_ERROR = ''IndexError''"
| "toStr KEY_ERROR = ''KeyError''"
| "toStr OS_ERROR = ''OSError''"
| "toStr TIMEOUT_ERROR = ''TimeoutError''"
| "toStr RUNTIME_ERROR = ''RuntimeError''"
| "toStr NOT_IMPLEMENTED_ERROR = ''NotImplementedError''"
| "toStr SYNTAX_ERROR = ''SyntaxError''"
| "toStr SYSTEM_ERROR = ''SystemError''"
| "toStr TYPE_ERROR = ''TypeError''"
| "toStr VALUE_ERROR = ''ValueError''"
| "toStr GENERIC_ERROR = ''GenericError''"

text \<open>
  The C library's \<^verbatim>\<open>snprintf\<close>, which the instance \<^verbatim>\<open>toStr\<close> calls as \<^verbatim>\<open>::snprintf\<close>, for
  formats whose only directive is \<^verbatim>\<open>%s\<close>. \<open>expand\<close> is the complete formatted text;
  \<open>c_snprintf n\<close> stores at most \<open>n - 1\<close> of its characters before the terminator and
  returns the length of the complete text, or a negative number when that length is not
  an \<^verbatim>\<open>int\<close>.
\<close>

fun expand :: "string \<Rightarrow> string list \<Rightarrow> string" where
  "expand [] args = []"
| "expand [c] args = [c]"
| "expand (c # d # fmt) args =
     (if c = CHR ''%'' \<and> d = CHR ''s''
      then (case args of [] \<Rightarrow> expand fmt [] | a # rest \<Rightarrow> a @ expand fmt rest)
      else c # expand (d # fmt) args)"

definition c_snprintf :: "nat \<Rightarrow> string \<Rightarrow> string list \<Rightarrow> string \<times> int" where
  "c_snprintf n fmt args =
     (let full = expand fmt args
      in (if n = 0 then [] else take (n - 1) full,
          if length full \<le> 2147483647 then int (length full) else - 1))"

text \<open>
  The instance \<^verbatim>\<open>Error::toStr()\<close>: the 256-byte buffer is cleared, \<^verbatim>\<open>snprintf\<close> writes
  \<^verbatim>\<open>"%s: %s"\<close> of the kind name and the message into it, and the buffer is returned, or
  the null \<^verbatim>\<open>str\<close> (\<open>None\<close>) when \<^verbatim>\<open>written <= 0\<close>.
\<close>

definition Error_toStr :: "Error \<Rightarrow> string option" where
  "Error_toStr e =
     (let (s_buffer, written) = c_snprintf 256 ''%s: %s'' [toStr (etype e), message e]
      in if written \<le> 0 then None else Some s_buffer)"

text \<open>
  \<^verbatim>\<open>Result< T > = std::expected< T, Error >\<close> is the sum \<open>Error + 'a\<close>, the error on the
  left; \<^verbatim>\<open>Status = Result< void >\<close> has the payload \<open>unit\<close>.
\<close>

type_synonym 'a Result = "Error + 'a"
type_synonym Status = "unit Result"

definition ok :: "'a \<Rightarrow> 'a Result" where
  "ok v = Inr v"

definition ok_void :: Status where
  "ok_void = Inr ()"

definition err :: "string \<Rightarrow> ErrorType \<Rightarrow> 'a Result" where
  "err msg typ = Inl (Error_ctor msg typ)"

text \<open>
  \<^verbatim>\<open>unwrap\<close> and \<^verbatim>\<open>verify\<close> either return to the caller or call \<^verbatim>\<open>std::abort()\<close>, which
  ends the process: the two outcomes of a call.
\<close>

datatype 'a outcome = Returns 'a | Aborts

definition unwrap :: "'a Result \<Rightarrow> 'a outcome" where
  "unwrap res = (case res of Inl e \<Rightarrow> Aborts | Inr v \<Rightarrow> Returns v)"

definition verify :: "Status \<Rightarrow> unit outcome" where
  "verify sta = (case sta of Inl e \<Rightarrow> Aborts | Inr u \<Rightarrow> Returns ())"

section \<open>bits.hpp: the flag set\<close>

text \<open>
  \<^verbatim>\<open>FlagSet< Enum >\<close> is a template over a scoped enumeration with an unsigned underlying
  type and a member \<^verbatim>\<open>ALL\<close>. \<^verbatim>\<open>Underlying\<close> is \<open>'a word\<close>, of the width of that type. An
  \<^verbatim>\<open>Enum\<close> value is any \<open>'a word\<close>: an enumeration with a fixed underlying type holds every
  value of that type, which is what \<^verbatim>\<open>static_cast< Enum >\<close> relies on. The template's
  constant \<^verbatim>\<open>Enum::ALL\<close> is the first argument \<open>E_ALL\<close> of every function below.

  The operands of \<^verbatim>\<open>&\<close>, \<^verbatim>\<open>|\<close>, \<^verbatim>\<open>^\<close>, \<^verbatim>\<open>~\<close> and \<^verbatim>\<open>>>\<close> on an \<^verbatim>\<open>Underlying\<close> narrower than
  \<^verbatim>\<open>int\<close> are promoted to \<^verbatim>\<open>int\<close>; every such expression of the source is converted back
  to \<^verbatim>\<open>Underlying\<close> or compared with zero after a mask of that width, so the word
  operations give the same values.
\<close>

subsection \<open>std::bitset\<close>

text \<open>
  \<^verbatim>\<open>std::bitset< N >\<close> is the list of its \<open>N\<close> bits, the bit of position \<open>i\<close> at index
  \<open>i\<close>. The members that take a position throw \<^verbatim>\<open>std::out_of_range\<close> when the position
  is not below \<open>N\<close>, before they change anything. The constructor from
  \<^verbatim>\<open>unsigned long long\<close> keeps the low \<open>N\<close> bits of its argument. \<^verbatim>\<open>to_ullong\<close> reads the
  bits back; \<open>N\<close> is at most 64 for every flag set (it is at most the width of
  \<^verbatim>\<open>Underlying\<close>), where \<^verbatim>\<open>to_ullong\<close> cannot overflow.
\<close>

type_synonym bitset = "bool list"

datatype exception = out_of_range

definition bitset_of_ullong :: "nat \<Rightarrow> 64 word \<Rightarrow> bitset" where
  "bitset_of_ullong N val = map (bit val) [0..<N]"

definition bitset_zero :: "nat \<Rightarrow> bitset" where
  "bitset_zero N = replicate N False"

definition bitset_test :: "bitset \<Rightarrow> nat \<Rightarrow> exception + bool" where
  "bitset_test b pos = (if pos < length b then Inr (b ! pos) else Inl out_of_range)"

definition bitset_set :: "bitset \<Rightarrow> nat \<Rightarrow> exception + bitset" where
  "bitset_set b pos = (if pos < length b then Inr (b[pos := True]) else Inl out_of_range)"

definition bitset_reset :: "bitset \<Rightarrow> nat \<Rightarrow> exception + bitset" where
  "bitset_reset b pos = (if pos < length b then Inr (b[pos := False]) else Inl out_of_range)"

definition bitset_flip :: "bitset \<Rightarrow> nat \<Rightarrow> exception + bitset" where
  "bitset_flip b pos = (if pos < length b then Inr (b[pos := \<not> b ! pos]) else Inl out_of_range)"

definition bitset_reset_all :: "bitset \<Rightarrow> bitset" where
  "bitset_reset_all b = replicate (length b) False"

definition bitset_or :: "bitset \<Rightarrow> bitset \<Rightarrow> bitset" where
  "bitset_or a b = map2 (\<or>) a b"

definition bitset_and :: "bitset \<Rightarrow> bitset \<Rightarrow> bitset" where
  "bitset_and a b = map2 (\<and>) a b"

definition bitset_xor :: "bitset \<Rightarrow> bitset \<Rightarrow> bitset" where
  "bitset_xor a b = map2 (\<noteq>) a b"

definition to_ullong :: "bitset \<Rightarrow> 64 word" where
  "to_ullong b = horner_sum of_bool 2 b"

definition bitset_any :: "bitset \<Rightarrow> bool" where
  "bitset_any b = list_ex id b"

definition bitset_count :: "bitset \<Rightarrow> nat" where
  "bitset_count b = length (filter id b)"

subsection \<open>The constants of the template\<close>

text \<open>
  \<^verbatim>\<open>NUM_BITS\<close>: the loop of the initialising lambda counts the shifts that take
  \<^verbatim>\<open>all_bits\<close> to zero.
\<close>

lemma unat_shift_less: "(v :: 'a::len word) \<noteq> 0 \<Longrightarrow> unat (drop_bit 1 v) < unat v"
proof -
  assume "v \<noteq> 0"
  then have pos: "0 < unat v"
    by (simp add: unat_gt_0)
  have "unat (drop_bit 1 v) = drop_bit 1 (unat v)"
    by (rule unat_drop_bit_eq)
  also have "\<dots> = unat v div 2"
    by (simp add: drop_bit_eq_div)
  also have "\<dots> < unat v"
    using pos by simp
  finally show ?thesis .
qed

function count_bits :: "'a::len word \<Rightarrow> nat \<Rightarrow> nat" where
  "count_bits all_bits count =
     (if all_bits \<noteq> 0 then count_bits (drop_bit 1 all_bits) (count + 1) else count)"
  by pat_completeness auto
termination
proof (relation "measure (\<lambda>(all_bits, count). unat all_bits)", goal_cases)
  case 1
  show ?case by simp
next
  case (2 all_bits count)
  then have "unat (drop_bit 1 all_bits) < unat all_bits"
    by (rule unat_shift_less)
  then show ?case
    by (simp only: in_measure prod.case)
qed

declare count_bits.simps [simp del]

definition NUM_BITS :: "'a::len word \<Rightarrow> nat" where
  "NUM_BITS E_ALL = count_bits E_ALL 0"

definition VALID_MASK :: "'a::len word \<Rightarrow> 'a word" where
  "VALID_MASK E_ALL = E_ALL"

text \<open>
  \<^verbatim>\<open>bitPosition\<close>: \<^verbatim>\<open>NUM_BITS\<close> for zero, otherwise the number of shifts until bit 0 is
  set.
\<close>

function bitPosition_loop :: "'a::len word \<Rightarrow> nat \<Rightarrow> nat" where
  "bitPosition_loop val pos =
     (if val AND 1 = 0 \<and> val \<noteq> 0 then bitPosition_loop (drop_bit 1 val) (pos + 1) else pos)"
  by pat_completeness auto
termination
proof (relation "measure (\<lambda>(val, pos). unat val)", goal_cases)
  case 1
  show ?case by simp
next
  case (2 val pos)
  then have "val \<noteq> 0"
    by simp
  then have "unat (drop_bit 1 val) < unat val"
    by (rule unat_shift_less)
  then show ?case
    by (simp only: in_measure prod.case)
qed

declare bitPosition_loop.simps [simp del]

definition bitPosition :: "'a::len word \<Rightarrow> 'a word \<Rightarrow> nat" where
  "bitPosition E_ALL val = (if val = 0 then NUM_BITS E_ALL else bitPosition_loop val 0)"

subsection \<open>Construction, validation and conversion\<close>

text \<open>
  The only data member is \<^verbatim>\<open>std::bitset< NUM_BITS > m_bits\<close>. The type fixes its size;
  \<open>FlagSet_sized\<close> says that a value of the record has the size of its type.
\<close>

record FlagSet =
  m_bits :: bitset

definition FlagSet_sized :: "'a::len word \<Rightarrow> FlagSet \<Rightarrow> bool" where
  "FlagSet_sized E_ALL fs = (length (m_bits fs) = NUM_BITS E_ALL)"

definition FlagSet_default :: "'a::len word \<Rightarrow> FlagSet" where
  "FlagSet_default E_ALL = \<lparr>m_bits = bitset_zero (NUM_BITS E_ALL)\<rparr>"

definition FlagSet_ctor :: "'a::len word \<Rightarrow> 'a word \<Rightarrow> FlagSet" where
  "FlagSet_ctor E_ALL num =
     \<lparr>m_bits = bitset_of_ullong (NUM_BITS E_ALL) (ucast (num AND VALID_MASK E_ALL))\<rparr>"

definition isValid :: "'a::len word \<Rightarrow> 'a word \<Rightarrow> bool" where
  "isValid E_ALL val = (val AND NOT (VALID_MASK E_ALL) = 0)"

definition fromUnderlying :: "'a::len word \<Rightarrow> 'a word \<Rightarrow> FlagSet" where
  "fromUnderlying E_ALL raw = FlagSet_ctor E_ALL (raw AND VALID_MASK E_ALL)"

definition fromEnum :: "'a::len word \<Rightarrow> 'a word \<Rightarrow> FlagSet Result" where
  "fromEnum E_ALL num =
     (if \<not> isValid E_ALL num then err ''Invalid enum value for FlagSet'' VALUE_ERROR
      else ok (FlagSet_ctor E_ALL num))"

definition toUnderlying :: "FlagSet \<Rightarrow> 'a::len word" where
  "toUnderlying fs = ucast (to_ullong (m_bits fs))"

definition toEnum :: "FlagSet \<Rightarrow> 'a::len word" where
  "toEnum fs = toUnderlying fs"

definition isValid_inst :: "'a::len word \<Rightarrow> FlagSet \<Rightarrow> bool" where
  "isValid_inst E_ALL fs = ((toUnderlying fs :: 'a word) AND NOT (VALID_MASK E_ALL) = 0)"

definition hasAny :: "FlagSet \<Rightarrow> bool" where
  "hasAny fs = bitset_any (m_bits fs)"

definition hasNone :: "FlagSet \<Rightarrow> bool" where
  "hasNone fs = (\<not> bitset_any (m_bits fs))"

definition count_flags :: "FlagSet \<Rightarrow> nat" where
  "count_flags fs = bitset_count (m_bits fs)"

subsection \<open>Single flag and bulk operations\<close>

text \<open>
  A call ends in one of three ways: \<open>Inl out_of_range\<close> when the bitset throws,
  \<open>Inr (Inl e)\<close> when the operation returns the error \<open>e\<close>, \<open>Inr (Inr v)\<close> when it
  returns the success \<open>v\<close>. The mutating operations also return the flag set as the
  call leaves it.
\<close>

definition has :: "'a::len word \<Rightarrow> 'a word \<Rightarrow> FlagSet \<Rightarrow> exception + bool Result" where
  "has E_ALL num fs =
     (if \<not> isValid E_ALL num then Inr (err ''Invalid enum value'' VALUE_ERROR)
      else case bitset_test (m_bits fs) (bitPosition E_ALL num) of
             Inl x \<Rightarrow> Inl x
           | Inr b \<Rightarrow> Inr (ok b))"

definition set_flag :: "'a::len word \<Rightarrow> 'a word \<Rightarrow> FlagSet \<Rightarrow> exception + (Status \<times> FlagSet)" where
  "set_flag E_ALL num fs =
     (if \<not> isValid E_ALL num then Inr (err ''Invalid enum value'' VALUE_ERROR, fs)
      else case bitset_set (m_bits fs) (bitPosition E_ALL num) of
             Inl x \<Rightarrow> Inl x
           | Inr b \<Rightarrow> Inr (ok_void, fs\<lparr>m_bits := b\<rparr>))"

definition clear :: "'a::len word \<Rightarrow> 'a word \<Rightarrow> FlagSet \<Rightarrow> exception + (Status \<times> FlagSet)" where
  "clear E_ALL num fs =
     (if \<not> isValid E_ALL num then Inr (err ''Invalid enum value'' VALUE_ERROR, fs)
      else case bitset_reset (m_bits fs) (bitPosition E_ALL num) of
             Inl x \<Rightarrow> Inl x
           | Inr b \<Rightarrow> Inr (ok_void, fs\<lparr>m_bits := b\<rparr>))"

definition toggle :: "'a::len word \<Rightarrow> 'a word \<Rightarrow> FlagSet \<Rightarrow> exception + (Status \<times> FlagSet)" where
  "toggle E_ALL num fs =
     (if \<not> isValid E_ALL num then Inr (err ''Invalid enum value'' VALUE_ERROR, fs)
      else case bitset_flip (m_bits fs) (bitPosition E_ALL num) of
             Inl x \<Rightarrow> Inl x
           | Inr b \<Rightarrow> Inr (ok_void, fs\<lparr>m_bits := b\<rparr>))"

definition setAll :: "'a::len word \<Rightarrow> FlagSet \<Rightarrow> Status \<times> FlagSet" where
  "setAll E_ALL fs =
     (ok_void, fs\<lparr>m_bits := bitset_of_ullong (NUM_BITS E_ALL) (ucast (VALID_MASK E_ALL))\<rparr>)"

definition clearAll :: "FlagSet \<Rightarrow> Status \<times> FlagSet" where
  "clearAll fs = (ok_void, fs\<lparr>m_bits := bitset_reset_all (m_bits fs)\<rparr>)"

definition toggleAll :: "'a::len word \<Rightarrow> FlagSet \<Rightarrow> Status \<times> FlagSet" where
  "toggleAll E_ALL fs =
     (ok_void,
      fs\<lparr>m_bits := bitset_xor (m_bits fs)
                      (bitset_of_ullong (NUM_BITS E_ALL) (ucast (VALID_MASK E_ALL)))\<rparr>)"

subsection \<open>Operators\<close>

definition operator_or :: "'a::len word \<Rightarrow> FlagSet \<Rightarrow> FlagSet \<Rightarrow> FlagSet" where
  "operator_or E_ALL a b = FlagSet_ctor E_ALL (toUnderlying a OR toUnderlying b)"

definition operator_and :: "'a::len word \<Rightarrow> FlagSet \<Rightarrow> FlagSet \<Rightarrow> FlagSet" where
  "operator_and E_ALL a b = FlagSet_ctor E_ALL (toUnderlying a AND toUnderlying b)"

definition operator_not :: "'a::len word \<Rightarrow> FlagSet \<Rightarrow> FlagSet" where
  "operator_not E_ALL a = FlagSet_ctor E_ALL (NOT (toUnderlying a) AND VALID_MASK E_ALL)"

definition operator_xor :: "'a::len word \<Rightarrow> FlagSet \<Rightarrow> FlagSet \<Rightarrow> FlagSet" where
  "operator_xor E_ALL a b = FlagSet_ctor E_ALL (toUnderlying a XOR toUnderlying b)"

definition operator_or_assign :: "FlagSet \<Rightarrow> FlagSet \<Rightarrow> FlagSet" where
  "operator_or_assign a b = a\<lparr>m_bits := bitset_or (m_bits a) (m_bits b)\<rparr>"

definition operator_and_assign :: "FlagSet \<Rightarrow> FlagSet \<Rightarrow> FlagSet" where
  "operator_and_assign a b = a\<lparr>m_bits := bitset_and (m_bits a) (m_bits b)\<rparr>"

definition operator_xor_assign :: "FlagSet \<Rightarrow> FlagSet \<Rightarrow> FlagSet" where
  "operator_xor_assign a b = a\<lparr>m_bits := bitset_xor (m_bits a) (m_bits b)\<rparr>"

subsection \<open>Iteration\<close>

text \<open>
  Both traversals build a flag as \<^verbatim>\<open>static_cast< Enum >( 1 << i )\<close>. The literal \<^verbatim>\<open>1\<close> is an
  \<^verbatim>\<open>int\<close> of 32 bits, so the shift is an \<^verbatim>\<open>int\<close> shift: for \<open>i < 32\<close> its value is the
  \<^verbatim>\<open>int\<close> congruent to \<open>2 ^ i\<close> modulo \<open>2 ^ 32\<close> (the least \<^verbatim>\<open>int\<close> for \<open>i = 31\<close>), and
  for a larger \<open>i\<close> the language leaves it undefined (\<open>None\<close>). The cast converts the
  signed value to \<^verbatim>\<open>Underlying\<close> modulo \<open>2 ^ LENGTH('a)\<close>, which is \<open>scast\<close>.
\<close>

definition shl_one :: "nat \<Rightarrow> 32 word option" where
  "shl_one i = (if i < 32 then Some (push_bit i 1) else None)"

definition flag_of_index :: "nat \<Rightarrow> 'a::len word option" where
  "flag_of_index i = map_option scast (shl_one i)"

text \<open>
  \<^verbatim>\<open>forEach\<close>: the loop over \<open>i < NUM_BITS\<close>; \<^verbatim>\<open>test( i )\<close> is within the bitset there.
  The callback is a function on a state \<open>'s\<close> of the caller. \<open>forEach_calls\<close> runs it
  with the callback that records its arguments in call order.
\<close>

function forEach_loop ::
  "nat \<Rightarrow> nat \<Rightarrow> bitset \<Rightarrow> ('a::len word option \<Rightarrow> 's \<Rightarrow> 's) \<Rightarrow> 's \<Rightarrow> 's" where
  "forEach_loop i N b func s =
     (if i < N
      then forEach_loop (i + 1) N b func (if b ! i then func (flag_of_index i) s else s)
      else s)"
  by pat_completeness auto
termination
  by (relation "measure (\<lambda>(i, N, b, func, s). N - i)") auto

declare forEach_loop.simps [simp del]

definition forEach ::
  "'a::len word \<Rightarrow> FlagSet \<Rightarrow> ('a word option \<Rightarrow> 's \<Rightarrow> 's) \<Rightarrow> 's \<Rightarrow> 's" where
  "forEach E_ALL fs func s = forEach_loop 0 (NUM_BITS E_ALL) (m_bits fs) func s"

definition forEach_calls :: "'a::len word \<Rightarrow> FlagSet \<Rightarrow> 'a word option list" where
  "forEach_calls E_ALL fs = forEach E_ALL fs (\<lambda>flag calls. calls @ [flag]) []"

text \<open>
  \<^verbatim>\<open>struct Iterator\<close>: the index and the bitset it refers to (the flag set is not changed
  while it is traversed). \<^verbatim>\<open>advance\<close> moves the index to the next set bit or to
  \<^verbatim>\<open>NUM_BITS\<close>; \<^verbatim>\<open>operator!=\<close> compares the indices only.
\<close>

record Iterator =
  m_index :: nat
  m_bits_ref :: bitset

function advance :: "nat \<Rightarrow> bitset \<Rightarrow> nat \<Rightarrow> nat" where
  "advance N b i = (if i < N \<and> \<not> b ! i then advance N b (i + 1) else i)"
  by pat_completeness auto
termination
  by (relation "measure (\<lambda>(N, b, i). N - i)") auto

declare advance.simps [simp del]

definition Iterator_ctor :: "nat \<Rightarrow> bitset \<Rightarrow> nat \<Rightarrow> Iterator" where
  "Iterator_ctor N b i = \<lparr>m_index = advance N b i, m_bits_ref = b\<rparr>"

definition Iterator_incr :: "nat \<Rightarrow> Iterator \<Rightarrow> Iterator" where
  "Iterator_incr N it = it\<lparr>m_index := advance N (m_bits_ref it) (m_index it + 1)\<rparr>"

definition Iterator_deref :: "Iterator \<Rightarrow> 'a::len word option" where
  "Iterator_deref it = flag_of_index (m_index it)"

definition Iterator_neq :: "Iterator \<Rightarrow> Iterator \<Rightarrow> bool" where
  "Iterator_neq it other = (m_index it \<noteq> m_index other)"

definition FlagSet_begin :: "'a::len word \<Rightarrow> FlagSet \<Rightarrow> Iterator" where
  "FlagSet_begin E_ALL fs = Iterator_ctor (NUM_BITS E_ALL) (m_bits fs) 0"

definition FlagSet_end :: "'a::len word \<Rightarrow> FlagSet \<Rightarrow> Iterator" where
  "FlagSet_end E_ALL fs = Iterator_ctor (NUM_BITS E_ALL) (m_bits fs) (NUM_BITS E_ALL)"

text \<open>
  The range-based \<^verbatim>\<open>for\<close> over a flag set: from \<^verbatim>\<open>begin()\<close>, while the iterator differs
  from \<^verbatim>\<open>end()\<close>, take \<^verbatim>\<open>*it\<close> and increment. The loop stops on equality only, so it is
  a partial function: \<open>None\<close> is a loop that does not end.
\<close>

partial_function (option) range_for ::
  "nat \<Rightarrow> Iterator \<Rightarrow> Iterator \<Rightarrow> 'a::len word option list \<Rightarrow> 'a word option list option" where
  "range_for N it stop seen =
     (if Iterator_neq it stop
      then range_for N (Iterator_incr N it) stop (seen @ [Iterator_deref it])
      else Some seen)"

declare range_for.simps [code]

definition iterate :: "'a::len word \<Rightarrow> FlagSet \<Rightarrow> 'a word option list option" where
  "iterate E_ALL fs =
     range_for (NUM_BITS E_ALL) (FlagSet_begin E_ALL fs) (FlagSet_end E_ALL fs) []"

subsection \<open>The flag sets of the public interface\<close>

text \<open>
  \<open>reachable E_ALL fs\<close>: \<open>fs\<close> is the value of a \<^verbatim>\<open>FlagSet< Enum >\<close> object after a
  constructor or factory and any number of calls of the mutating members, or the result
  of an operator on such objects. A call that throws leaves its object as it was.
\<close>

inductive reachable :: "'a::len word \<Rightarrow> FlagSet \<Rightarrow> bool" for E_ALL :: "'a word" where
  r_default: "reachable E_ALL (FlagSet_default E_ALL)"
| r_ctor: "reachable E_ALL (FlagSet_ctor E_ALL num)"
| r_fromUnderlying: "reachable E_ALL (fromUnderlying E_ALL raw)"
| r_fromEnum: "fromEnum E_ALL num = Inr fs \<Longrightarrow> reachable E_ALL fs"
| r_set: "reachable E_ALL fs \<Longrightarrow> set_flag E_ALL num fs = Inr (st, fs') \<Longrightarrow> reachable E_ALL fs'"
| r_clear: "reachable E_ALL fs \<Longrightarrow> clear E_ALL num fs = Inr (st, fs') \<Longrightarrow> reachable E_ALL fs'"
| r_toggle: "reachable E_ALL fs \<Longrightarrow> toggle E_ALL num fs = Inr (st, fs') \<Longrightarrow> reachable E_ALL fs'"
| r_setAll: "reachable E_ALL fs \<Longrightarrow> reachable E_ALL (snd (setAll E_ALL fs))"
| r_clearAll: "reachable E_ALL fs \<Longrightarrow> reachable E_ALL (snd (clearAll fs))"
| r_toggleAll: "reachable E_ALL fs \<Longrightarrow> reachable E_ALL (snd (toggleAll E_ALL fs))"
| r_or: "reachable E_ALL a \<Longrightarrow> reachable E_ALL b \<Longrightarrow> reachable E_ALL (operator_or E_ALL a b)"
| r_and: "reachable E_ALL a \<Longrightarrow> reachable E_ALL b \<Longrightarrow> reachable E_ALL (operator_and E_ALL a b)"
| r_xor: "reachable E_ALL a \<Longrightarrow> reachable E_ALL b \<Longrightarrow> reachable E_ALL (operator_xor E_ALL a b)"
| r_not: "reachable E_ALL a \<Longrightarrow> reachable E_ALL (operator_not E_ALL a)"
| r_or_assign: "reachable E_ALL a \<Longrightarrow> reachable E_ALL b \<Longrightarrow> reachable E_ALL (operator_or_assign a b)"
| r_and_assign: "reachable E_ALL a \<Longrightarrow> reachable E_ALL b \<Longrightarrow> reachable E_ALL (operator_and_assign a b)"
| r_xor_assign: "reachable E_ALL a \<Longrightarrow> reachable E_ALL b \<Longrightarrow> reachable E_ALL (operator_xor_assign a b)"

code_pred reachable .

subsection \<open>Specification predicates\<close>

text \<open>
  \<open>within_mask\<close>: the bitset has the size of its type and every stored bit is a bit of
  \<^verbatim>\<open>ALL\<close>.
\<close>

definition within_mask :: "'a::len word \<Rightarrow> FlagSet \<Rightarrow> bool" where
  "within_mask E_ALL fs =
     (length (m_bits fs) = NUM_BITS E_ALL
      \<and> (\<forall>i<length (m_bits fs). m_bits fs ! i \<longrightarrow> bit E_ALL i))"

text \<open>The positions of the stored bits, in ascending order.\<close>

definition stored_positions :: "nat \<Rightarrow> nat \<Rightarrow> bitset \<Rightarrow> nat list" where
  "stored_positions i N b = filter (\<lambda>j. b ! j) [i..<N]"

section \<open>Properties of the result component\<close>

lemma toStr_length: "0 < length (toStr k) \<and> length (toStr k) \<le> 19"
  by (cases k) simp_all

lemma expand_kind_message: "expand ''%s: %s'' [a, b] = a @ '': '' @ b"
  by simp

text \<open>
  C8: the static \<^verbatim>\<open>Error::toStr\<close> maps each of the seventeen kinds to its documented
  name; no kind is left out (the list below is every value of the type), and every name
  is non-empty.
\<close>

theorem kindName_total:
  "toStr ARITHMETIC_ERROR = ''ArithmeticError''
   \<and> toStr FLOATING_POINT_ERROR = ''FloatingPointError''
   \<and> toStr OVERFLOW_ERROR = ''OverflowError''
   \<and> toStr ZERO_DIVISION_ERROR = ''ZeroDivisionError''
   \<and> toStr ASSERTION_ERROR = ''AssertionError''
   \<and> toStr ATTRIBUTE_ERROR = ''AttributeError''
   \<and> toStr INDEX_ERROR = ''IndexError''
   \<and> toStr KEY_ERROR = ''KeyError''
   \<and> toStr OS_ERROR = ''OSError''
   \<and> toStr TIMEOUT_ERROR = ''TimeoutError''
   \<and> toStr RUNTIME_ERROR = ''RuntimeError''
   \<and> toStr NOT_IMPLEMENTED_ERROR = ''NotImplementedError''
   \<and> toStr SYNTAX_ERROR = ''SyntaxError''
   \<and> toStr SYSTEM_ERROR = ''SystemError''
   \<and> toStr TYPE_ERROR = ''TypeError''
   \<and> toStr VALUE_ERROR = ''ValueError''
   \<and> toStr GENERIC_ERROR = ''GenericError''
   \<and> (UNIV :: ErrorType set) =
       {ARITHMETIC_ERROR, FLOATING_POINT_ERROR, OVERFLOW_ERROR, ZERO_DIVISION_ERROR,
        ASSERTION_ERROR, ATTRIBUTE_ERROR, INDEX_ERROR, KEY_ERROR, OS_ERROR, TIMEOUT_ERROR,
        RUNTIME_ERROR, NOT_IMPLEMENTED_ERROR, SYNTAX_ERROR, SYSTEM_ERROR, TYPE_ERROR,
        VALUE_ERROR, GENERIC_ERROR}
   \<and> (\<forall>k. toStr k \<noteq> [])"
proof -
  have univ: "(UNIV :: ErrorType set) =
       {ARITHMETIC_ERROR, FLOATING_POINT_ERROR, OVERFLOW_ERROR, ZERO_DIVISION_ERROR,
        ASSERTION_ERROR, ATTRIBUTE_ERROR, INDEX_ERROR, KEY_ERROR, OS_ERROR, TIMEOUT_ERROR,
        RUNTIME_ERROR, NOT_IMPLEMENTED_ERROR, SYNTAX_ERROR, SYSTEM_ERROR, TYPE_ERROR,
        VALUE_ERROR, GENERIC_ERROR}"
  proof (rule set_eqI)
    fix k :: ErrorType
    show "k \<in> UNIV \<longleftrightarrow> k \<in> {ARITHMETIC_ERROR, FLOATING_POINT_ERROR, OVERFLOW_ERROR,
        ZERO_DIVISION_ERROR, ASSERTION_ERROR, ATTRIBUTE_ERROR, INDEX_ERROR, KEY_ERROR,
        OS_ERROR, TIMEOUT_ERROR, RUNTIME_ERROR, NOT_IMPLEMENTED_ERROR, SYNTAX_ERROR,
        SYSTEM_ERROR, TYPE_ERROR, VALUE_ERROR, GENERIC_ERROR}"
      by (cases k) simp_all
  qed
  have nonempty: "\<forall>k. toStr k \<noteq> []"
    using toStr_length by (metis length_greater_0_conv)
  show ?thesis
    using univ nonempty by simp
qed

text \<open>
  C9: \<^verbatim>\<open>unwrap\<close> returns exactly the success payload of a result that holds one and
  ends the process on a result that holds an error; \<^verbatim>\<open>verify\<close> returns normally exactly
  when the status is a success and ends the process otherwise.
\<close>

theorem unwrap_verify_contract:
  "unwrap (ok v) = Returns v
   \<and> unwrap (err msg typ :: 'a Result) = Aborts
   \<and> (\<forall>res :: 'a Result. unwrap res = (case res of Inr x \<Rightarrow> Returns x | Inl e \<Rightarrow> Aborts))
   \<and> verify ok_void = Returns ()
   \<and> verify (err msg typ) = Aborts
   \<and> (\<forall>sta. (verify sta = Returns ()) = (sta = ok_void))
   \<and> (\<forall>sta. (verify sta = Aborts) = (\<exists>e. sta = Inl e))"
  by (auto simp: unwrap_def verify_def ok_def ok_void_def err_def split: sum.splits)

lemma Error_toStr_eq:
  "length (message e) \<le> 2147483000 \<Longrightarrow>
   Error_toStr e = Some (take 255 (toStr (etype e) @ '': '' @ message e))"
  using toStr_length [of "etype e"]
  by (simp add: Error_toStr_def c_snprintf_def Let_def)

text \<open>
  C7: the instance \<^verbatim>\<open>Error::toStr()\<close> gives \<^verbatim>\<open>"<KindName>: <message>"\<close>. For the
  zero-division error with the message "division by zero" the text is exactly
  "ZeroDivisionError: division by zero". For a message of 300 characters the text is cut
  to 255 characters: the kind name and the separator in full, then the first characters of
  the message. Every text it returns has at most 255 characters and starts with the kind
  name and the separator.
\<close>

theorem describe_format:
  "Error_toStr (Error_ctor ''division by zero'' ZERO_DIVISION_ERROR)
     = Some ''ZeroDivisionError: division by zero''
   \<and> (length (message e) = 300 \<longrightarrow>
        (\<exists>s. Error_toStr e = Some s \<and> length s = 255
           \<and> s = toStr (etype e) @ '': '' @ take (253 - length (toStr (etype e))) (message e)))
   \<and> (\<forall>s. Error_toStr e = Some s \<longrightarrow>
        length s \<le> 255 \<and> take (length (toStr (etype e)) + 2) s = toStr (etype e) @ '': '')"
proof (intro conjI impI allI)
  show "Error_toStr (Error_ctor ''division by zero'' ZERO_DIVISION_ERROR)
     = Some ''ZeroDivisionError: division by zero''"
    by (simp add: Error_toStr_def c_snprintf_def Error_ctor_def)
next
  assume len: "length (message e) = 300"
  have "Error_toStr e = Some (take 255 (toStr (etype e) @ '': '' @ message e))"
    using len by (simp add: Error_toStr_eq)
  moreover have "take 255 (toStr (etype e) @ '': '' @ message e)
      = toStr (etype e) @ '': '' @ take (253 - length (toStr (etype e))) (message e)"
    using toStr_length [of "etype e"] by (simp add: take_Cons')
  moreover have "length (toStr (etype e) @ '': '' @ take (253 - length (toStr (etype e))) (message e)) = 255"
    using toStr_length [of "etype e"] len by simp
  ultimately show "\<exists>s. Error_toStr e = Some s \<and> length s = 255
           \<and> s = toStr (etype e) @ '': '' @ take (253 - length (toStr (etype e))) (message e)"
    by simp
next
  fix s assume "Error_toStr e = Some s"
  then have s: "s = take 255 (toStr (etype e) @ '': '' @ message e)"
    by (simp add: Error_toStr_def c_snprintf_def Let_def split: if_splits)
  show "length s \<le> 255" using s by simp
  show "take (length (toStr (etype e)) + 2) s = toStr (etype e) @ '': ''"
    using s toStr_length [of "etype e"] by (simp add: min_def take_Cons')
qed

text \<open>The 300-character message of the test suite, under \<^verbatim>\<open>RUNTIME_ERROR\<close>.\<close>

theorem describe_format_witness:
  "Error_toStr (Error_ctor (replicate 300 (CHR ''A'')) RUNTIME_ERROR)
     = Some (''RuntimeError: '' @ replicate 241 (CHR ''A''))
   \<and> length (''RuntimeError: '' @ replicate 241 (CHR ''A'')) = 255"
  using describe_format [of "Error_ctor (replicate 300 (CHR ''A'')) RUNTIME_ERROR"]
  by (simp add: Error_ctor_def)

section \<open>Properties of the flag set\<close>

subsection \<open>The width and the bit position\<close>

lemma count_bits_0: "count_bits 0 c = c"
  by (subst count_bits.simps) simp

lemma count_bits_step: "v \<noteq> 0 \<Longrightarrow> count_bits v c = count_bits (drop_bit 1 v) (c + 1)"
  by (subst count_bits.simps) simp

lemma bit_drop_bit_1: "bit (drop_bit 1 (v :: 'a::len word)) j = bit v (Suc j)"
  by (simp add: bit_drop_bit_eq)

lemma word_nonzero_bit: "(v :: 'a::len word) \<noteq> 0 \<Longrightarrow> \<exists>k. bit v k"
proof (rule ccontr)
  assume "v \<noteq> 0" and "\<not> (\<exists>k. bit v k)"
  then have "v = 0"
    by (intro bit_word_eqI) simp
  with \<open>v \<noteq> 0\<close> show False by simp
qed

lemma count_bits_ge: "c \<le> count_bits v c"
proof (induction v c rule: count_bits.induct)
  case (1 all_bits count)
  show ?case
  proof (cases "all_bits = 0")
    case True
    then show ?thesis by (simp add: count_bits_0)
  next
    case False
    with 1 have "count + 1 \<le> count_bits (drop_bit 1 all_bits) (count + 1)" by simp
    then show ?thesis
      using False by (simp add: count_bits_step)
  qed
qed

lemma bit_less_count_bits: "bit v i \<Longrightarrow> i + c < count_bits v c"
proof (induction v c arbitrary: i rule: count_bits.induct)
  case (1 all_bits count)
  from \<open>bit all_bits i\<close> have nz: "all_bits \<noteq> 0" by auto
  have step: "count_bits all_bits count = count_bits (drop_bit 1 all_bits) (count + 1)"
    using nz by (rule count_bits_step)
  show ?case
  proof (cases i)
    case 0
    have "count + 1 \<le> count_bits (drop_bit 1 all_bits) (count + 1)"
      by (rule count_bits_ge)
    with step 0 show ?thesis by simp
  next
    case (Suc j)
    with \<open>bit all_bits i\<close> have "bit (drop_bit 1 all_bits) j"
      by (simp only: bit_drop_bit_1)
    with nz have "j + (count + 1) < count_bits (drop_bit 1 all_bits) (count + 1)"
      by (rule "1.IH")
    with step Suc show ?thesis by simp
  qed
qed

lemma bit_less_NUM_BITS: "bit E_ALL i \<Longrightarrow> i < NUM_BITS E_ALL"
  using bit_less_count_bits [of E_ALL i 0] by (simp add: NUM_BITS_def)

lemma count_bits_top: "v \<noteq> 0 \<Longrightarrow> \<exists>i. bit v i \<and> count_bits v c = c + i + 1"
proof (induction v c rule: count_bits.induct)
  case (1 all_bits count)
  have step: "count_bits all_bits count = count_bits (drop_bit 1 all_bits) (count + 1)"
    using \<open>all_bits \<noteq> 0\<close> by (rule count_bits_step)
  show ?case
  proof (cases "drop_bit 1 all_bits = 0")
    case True
    have high: "\<not> bit all_bits (Suc j)" for j
      using True bit_drop_bit_1 [of all_bits j] by simp
    obtain k where k: "bit all_bits k"
      using \<open>all_bits \<noteq> 0\<close> word_nonzero_bit by blast
    have "bit all_bits 0"
    proof (cases k)
      case 0
      with k show ?thesis by simp
    next
      case (Suc j)
      with k high show ?thesis by simp
    qed
    moreover have "count_bits all_bits count = count + 1"
      using step True by (simp add: count_bits_0)
    ultimately have "bit all_bits 0 \<and> count_bits all_bits count = count + 0 + 1"
      by simp
    then show ?thesis ..
  next
    case False
    with \<open>all_bits \<noteq> 0\<close> have "\<exists>i. bit (drop_bit 1 all_bits) i \<and>
        count_bits (drop_bit 1 all_bits) (count + 1) = count + 1 + i + 1"
      by (rule "1.IH")
    then obtain j where j: "bit (drop_bit 1 all_bits) j"
      and cnt: "count_bits (drop_bit 1 all_bits) (count + 1) = count + 1 + j + 1"
      by blast
    from j have "bit all_bits (Suc j)"
      by (simp only: bit_drop_bit_1)
    moreover from cnt step have "count_bits all_bits count = count + Suc j + 1"
      by simp
    ultimately have "bit all_bits (Suc j) \<and> count_bits all_bits count = count + Suc j + 1" ..
    then show ?thesis ..
  qed
qed

lemma NUM_BITS_le_length: "NUM_BITS (E_ALL :: 'a::len word) \<le> LENGTH('a)"
proof (cases "E_ALL = 0")
  case True
  then show ?thesis by (simp add: NUM_BITS_def count_bits_0)
next
  case False
  then obtain i where "bit E_ALL i" and "NUM_BITS E_ALL = i + 1"
    using count_bits_top [of E_ALL 0] by (auto simp: NUM_BITS_def)
  moreover from \<open>bit E_ALL i\<close> have "i < LENGTH('a)"
    by (rule bit_imp_le_length)
  ultimately show ?thesis by simp
qed

lemma and_1_eq_0_iff: "((v :: 'a::len word) AND 1 = 0) = (\<not> bit v 0)"
  by (simp add: and_one_eq bit_0 even_iff_mod_2_eq_zero)

lemma bitPosition_loop_spec:
  "v \<noteq> 0 \<Longrightarrow> \<exists>k. bitPosition_loop v p = p + k \<and> bit v k \<and> (\<forall>j<k. \<not> bit v j)"
proof (induction v p rule: bitPosition_loop.induct)
  case (1 val pos)
  show ?case
  proof (cases "bit val 0")
    case True
    then have "bitPosition_loop val pos = pos"
      by (subst bitPosition_loop.simps) (simp add: and_1_eq_0_iff)
    with True have "bitPosition_loop val pos = pos + 0 \<and> bit val 0 \<and> (\<forall>j<0. \<not> bit val j)"
      by simp
    then show ?thesis ..
  next
    case False
    with \<open>val \<noteq> 0\<close> have loop: "val AND 1 = 0 \<and> val \<noteq> 0"
      by (simp add: and_1_eq_0_iff)
    then have step: "bitPosition_loop val pos = bitPosition_loop (drop_bit 1 val) (pos + 1)"
      by (subst bitPosition_loop.simps) simp
    obtain k where k: "bit val k"
      using \<open>val \<noteq> 0\<close> word_nonzero_bit by blast
    with False obtain k' where "k = Suc k'"
      by (cases k) auto
    with k have "bit (drop_bit 1 val) k'"
      by (simp only: bit_drop_bit_1)
    then have "drop_bit 1 val \<noteq> 0"
      by auto
    with loop have "\<exists>k. bitPosition_loop (drop_bit 1 val) (pos + 1) = pos + 1 + k
        \<and> bit (drop_bit 1 val) k \<and> (\<forall>j<k. \<not> bit (drop_bit 1 val) j)"
      by (rule "1.IH")
    then obtain m where m1: "bitPosition_loop (drop_bit 1 val) (pos + 1) = pos + 1 + m"
      and m2: "bit (drop_bit 1 val) m" and m3: "\<forall>j<m. \<not> bit (drop_bit 1 val) j"
      by blast
    from m2 have b: "bit val (Suc m)"
      by (simp only: bit_drop_bit_1)
    have low: "\<not> bit val j" if "j < Suc m" for j
    proof (cases j)
      case 0
      with False show ?thesis by simp
    next
      case (Suc j')
      with that have "j' < m" by simp
      with m3 have "\<not> bit (drop_bit 1 val) j'" by blast
      with Suc show ?thesis by (simp only: bit_drop_bit_1 not_False_eq_True)
    qed
    from step m1 have "bitPosition_loop val pos = pos + Suc m"
      by simp
    with b low have "bitPosition_loop val pos = pos + Suc m \<and> bit val (Suc m)
        \<and> (\<forall>j<Suc m. \<not> bit val j)"
      by blast
    then show ?thesis ..
  qed
qed

lemma isValid_iff: "isValid E_ALL v = (\<forall>i. bit v i \<longrightarrow> bit E_ALL i)"
proof
  assume "isValid E_ALL v"
  then have z: "v AND NOT E_ALL = 0"
    by (simp add: isValid_def VALID_MASK_def)
  show "\<forall>i. bit v i \<longrightarrow> bit E_ALL i"
  proof (intro allI impI)
    fix i assume "bit v i"
    have "\<not> bit (v AND NOT E_ALL) i"
      using z by simp
    with \<open>bit v i\<close> show "bit E_ALL i"
      by (auto simp: bit_and_iff bit_not_iff dest: bit_imp_le_length)
  qed
next
  assume a: "\<forall>i. bit v i \<longrightarrow> bit E_ALL i"
  have "v AND NOT E_ALL = 0"
    by (rule bit_word_eqI) (use a in \<open>auto simp: bit_and_iff bit_not_iff\<close>)
  then show "isValid E_ALL v"
    by (simp add: isValid_def VALID_MASK_def)
qed

text \<open>
  For a non-zero candidate inside the mask, \<^verbatim>\<open>bitPosition\<close> is the position of its lowest
  set bit, a position of the bitset.
\<close>

lemma bitPosition_valid:
  assumes "isValid E_ALL v" and "v \<noteq> 0"
  shows "bit v (bitPosition E_ALL v)"
    and "\<forall>j<bitPosition E_ALL v. \<not> bit v j"
    and "bit E_ALL (bitPosition E_ALL v)"
    and "bitPosition E_ALL v < NUM_BITS E_ALL"
proof -
  obtain k where k: "bitPosition_loop v 0 = 0 + k" "bit v k" "\<forall>j<k. \<not> bit v j"
    using bitPosition_loop_spec [OF \<open>v \<noteq> 0\<close>, of 0] by blast
  then have p: "bitPosition E_ALL v = k"
    using \<open>v \<noteq> 0\<close> by (simp add: bitPosition_def)
  show "bit v (bitPosition E_ALL v)" and "\<forall>j<bitPosition E_ALL v. \<not> bit v j"
    using p k by simp_all
  show m: "bit E_ALL (bitPosition E_ALL v)"
    using p k assms(1) by (simp add: isValid_iff)
  show "bitPosition E_ALL v < NUM_BITS E_ALL"
    using m by (rule bit_less_NUM_BITS)
qed

lemma bitPosition_single:
  assumes "k < LENGTH('a)"
  shows "bitPosition E_ALL (push_bit k 1 :: 'a::len word) = k"
proof -
  let ?v = "push_bit k 1 :: 'a word"
  have bits: "bit ?v j = (j = k)" for j
    using assms by (auto simp: bit_simps)
  have nz: "?v \<noteq> 0"
  proof
    assume z: "?v = 0"
    have "bit ?v k" using bits by blast
    then have "bit (0 :: 'a word) k" by (simp only: z)
    then show False by simp
  qed
  obtain m where m: "bitPosition_loop ?v 0 = 0 + m" "bit ?v m"
    using bitPosition_loop_spec [OF nz, of 0] by blast
  with bits have "m = k" by simp
  with m nz show ?thesis
    by (simp add: bitPosition_def)
qed

lemma bitPosition_zero: "bitPosition E_ALL 0 = NUM_BITS E_ALL"
  by (simp add: bitPosition_def)

subsection \<open>Bitsets and the conversions\<close>

lemma length_bitset_of_ullong: "length (bitset_of_ullong N w) = N"
  by (simp add: bitset_of_ullong_def)

lemma nth_bitset_of_ullong: "i < N \<Longrightarrow> bitset_of_ullong N w ! i = bit w i"
  by (simp add: bitset_of_ullong_def)

lemma FlagSet_ctor_sized: "FlagSet_sized E_ALL (FlagSet_ctor E_ALL x)"
  by (simp add: FlagSet_sized_def FlagSet_ctor_def length_bitset_of_ullong)

lemma nth_FlagSet_ctor:
  "i < NUM_BITS E_ALL \<Longrightarrow>
   m_bits (FlagSet_ctor E_ALL x) ! i = (bit x i \<and> bit E_ALL i \<and> i < 64)"
  by (auto simp: FlagSet_ctor_def VALID_MASK_def nth_bitset_of_ullong bit_ucast_iff bit_and_iff)

lemma bit_toUnderlying:
  "bit (toUnderlying fs :: 'a::len word) i =
   (i < LENGTH('a) \<and> i < 64 \<and> i < length (m_bits fs) \<and> m_bits fs ! i)"
  by (auto simp: toUnderlying_def to_ullong_def bit_ucast_iff bit_horner_sum_bit_word_iff)

lemma toUnderlying_FlagSet_ctor:
  assumes "LENGTH('a::len) \<le> 64"
  shows "toUnderlying (FlagSet_ctor E_ALL x) = x AND (E_ALL :: 'a word)"
proof (rule bit_word_eqI)
  fix i assume i: "i < LENGTH('a)"
  show "bit (toUnderlying (FlagSet_ctor E_ALL x) :: 'a word) i = bit (x AND E_ALL) i"
  proof (cases "bit E_ALL i")
    case True
    then have "i < NUM_BITS E_ALL"
      by (rule bit_less_NUM_BITS)
    with True i assms show ?thesis
      using FlagSet_ctor_sized [of E_ALL x]
      by (simp add: bit_toUnderlying nth_FlagSet_ctor bit_and_iff FlagSet_sized_def)
  next
    case False
    have "\<not> bit (toUnderlying (FlagSet_ctor E_ALL x) :: 'a word) i"
      using False FlagSet_ctor_sized [of E_ALL x]
      by (auto simp: bit_toUnderlying nth_FlagSet_ctor FlagSet_sized_def)
    with False show ?thesis
      by (simp add: bit_and_iff)
  qed
qed

text \<open>The stored bits lie inside the mask exactly when the instance \<^verbatim>\<open>isValid\<close> holds.\<close>

lemma isValid_inst_iff:
  "isValid_inst (E_ALL :: 'a::len word) fs =
   (\<forall>i. i < LENGTH('a) \<and> i < 64 \<and> i < length (m_bits fs) \<and> m_bits fs ! i \<longrightarrow> bit E_ALL i)"
proof -
  have "isValid_inst E_ALL fs = isValid E_ALL (toUnderlying fs :: 'a word)"
    by (simp add: isValid_inst_def isValid_def)
  then show ?thesis
    by (simp add: isValid_iff bit_toUnderlying)
qed

lemma FlagSet_ctor_toUnderlying:
  assumes len: "LENGTH('a::len) \<le> 64"
    and sized: "FlagSet_sized (E_ALL :: 'a word) a"
    and valid: "isValid_inst E_ALL a"
  shows "FlagSet_ctor E_ALL (toUnderlying a :: 'a word) = a"
proof -
  have n: "length (m_bits a) = NUM_BITS E_ALL"
    using sized by (simp add: FlagSet_sized_def)
  have le: "NUM_BITS E_ALL \<le> LENGTH('a)"
    by (rule NUM_BITS_le_length)
  have "m_bits (FlagSet_ctor E_ALL (toUnderlying a :: 'a word)) = m_bits a"
  proof (rule nth_equalityI)
    show "length (m_bits (FlagSet_ctor E_ALL (toUnderlying a :: 'a word))) = length (m_bits a)"
      using FlagSet_ctor_sized [of E_ALL "toUnderlying a"] n by (simp add: FlagSet_sized_def)
  next
    fix i assume "i < length (m_bits (FlagSet_ctor E_ALL (toUnderlying a :: 'a word)))"
    then have i: "i < NUM_BITS E_ALL"
      using FlagSet_ctor_sized [of E_ALL "toUnderlying a"] by (simp add: FlagSet_sized_def)
    with le len have i': "i < LENGTH('a)" "i < 64" by simp_all
    have "m_bits a ! i \<longrightarrow> bit E_ALL i"
      using valid i i' n by (simp add: isValid_inst_iff)
    then show "m_bits (FlagSet_ctor E_ALL (toUnderlying a :: 'a word)) ! i = m_bits a ! i"
      using i i' n by (auto simp: nth_FlagSet_ctor bit_toUnderlying)
  qed
  then show ?thesis
    by (cases a) (simp add: FlagSet_ctor_def)
qed

lemma isValid_inst_FlagSet_ctor: "isValid_inst E_ALL (FlagSet_ctor E_ALL x)"
  using FlagSet_ctor_sized [of E_ALL x]
  by (auto simp: isValid_inst_iff nth_FlagSet_ctor FlagSet_sized_def)

subsection \<open>Ingestion: fromUnderlying and fromEnum\<close>

lemma fromUnderlying_eq_ctor: "fromUnderlying E_ALL r = FlagSet_ctor E_ALL r"
proof -
  have "(r AND E_ALL) AND E_ALL = r AND E_ALL"
    by (simp add: and.assoc)
  then show ?thesis
    by (simp add: fromUnderlying_def FlagSet_ctor_def VALID_MASK_def)
qed

text \<open>
  C2: \<^verbatim>\<open>fromUnderlying\<close> is a total function into flag sets (it has no error result);
  \<^verbatim>\<open>fromUnderlying( r ).toUnderlying()\<close> is \<^verbatim>\<open>r & VALID_MASK\<close>, and ingesting that value again
  gives the same flag set. \<^verbatim>\<open>Underlying\<close> is an unsigned integer type of at most 64 bits.
\<close>

theorem masking_idempotence:
  assumes "LENGTH('a::len) \<le> 64"
  shows "toUnderlying (fromUnderlying E_ALL r) = r AND VALID_MASK (E_ALL :: 'a word)
    \<and> fromUnderlying E_ALL (toUnderlying (fromUnderlying E_ALL r) :: 'a word)
        = fromUnderlying E_ALL r"
proof -
  have u: "toUnderlying (fromUnderlying E_ALL r) = r AND E_ALL"
    using assms by (simp add: fromUnderlying_eq_ctor toUnderlying_FlagSet_ctor)
  have "fromUnderlying E_ALL (r AND E_ALL) = fromUnderlying E_ALL r"
    by (simp add: fromUnderlying_def FlagSet_ctor_def VALID_MASK_def and.assoc)
  with u show ?thesis
    by (simp add: VALID_MASK_def)
qed

text \<open>The test of the suite: \<^verbatim>\<open>Permissions\<close> (32 bits, \<^verbatim>\<open>ALL = 7\<close>) and the raw value \<^verbatim>\<open>0xFF\<close>.\<close>

theorem masking_idempotence_witness:
  "LENGTH(32) \<le> 64
   \<and> toUnderlying (fromUnderlying (7 :: 32 word) 255) = (7 :: 32 word)
   \<and> fromUnderlying (7 :: 32 word) (toUnderlying (fromUnderlying (7 :: 32 word) 255) :: 32 word)
       = fromUnderlying (7 :: 32 word) 255"
proof -
  have len: "LENGTH(32) \<le> 64" by simp
  note inst = masking_idempotence [OF len, of 7 255]
  have m: "(255 :: 32 word) AND VALID_MASK 7 = 7"
    by (simp add: VALID_MASK_def)
  from inst have "toUnderlying (fromUnderlying (7 :: 32 word) 255) = (255 :: 32 word) AND VALID_MASK 7"
    by (rule conjunct1)
  then have v: "toUnderlying (fromUnderlying (7 :: 32 word) 255) = (7 :: 32 word)"
    by (simp only: m)
  from inst have "fromUnderlying (7 :: 32 word)
      (toUnderlying (fromUnderlying (7 :: 32 word) 255) :: 32 word) = fromUnderlying (7 :: 32 word) 255"
    by (rule conjunct2)
  with len v show ?thesis
    by (intro conjI)
qed

text \<open>
  C3: for a value with no bit outside \<^verbatim>\<open>VALID_MASK\<close>, \<^verbatim>\<open>fromEnum\<close> succeeds with the flag
  set that \<^verbatim>\<open>fromUnderlying\<close> gives for it; for a value with a bit outside the mask it
  fails with an error of kind \<^verbatim>\<open>VALUE_ERROR\<close>.
\<close>

theorem strict_lenient_agreement:
  "(v AND NOT (VALID_MASK E_ALL) = 0 \<longrightarrow> fromEnum E_ALL v = ok (fromUnderlying E_ALL v))
   \<and> (v AND NOT (VALID_MASK E_ALL) \<noteq> 0 \<longrightarrow>
        fromEnum E_ALL v = err ''Invalid enum value for FlagSet'' VALUE_ERROR
        \<and> (\<exists>e. fromEnum E_ALL v = Inl e \<and> etype e = VALUE_ERROR))"
  by (simp add: fromEnum_def isValid_def fromUnderlying_eq_ctor err_def Error_ctor_def)

text \<open>\<^verbatim>\<open>Permissions\<close>: \<^verbatim>\<open>READ\<close> is accepted, the value 16 of the test suite is refused.\<close>

theorem strict_lenient_agreement_witness:
  "fromEnum (7 :: 32 word) 1 = ok (fromUnderlying (7 :: 32 word) 1)
   \<and> fromEnum (7 :: 32 word) 16 = err ''Invalid enum value for FlagSet'' VALUE_ERROR"
proof -
  have a: "(1 :: 32 word) AND NOT (VALID_MASK 7) = 0"
    by (simp add: VALID_MASK_def)
  have b: "(16 :: 32 word) AND NOT (VALID_MASK 7) \<noteq> 0"
    by (simp add: VALID_MASK_def)
  from a b strict_lenient_agreement [of "1 :: 32 word" 7]
    strict_lenient_agreement [of "16 :: 32 word" 7]
  show ?thesis by blast
qed

subsection \<open>Single flag operations\<close>

lemma single_ops_invalid:
  assumes "\<not> isValid E_ALL num"
  shows "has E_ALL num fs = Inr (err ''Invalid enum value'' VALUE_ERROR)"
    and "set_flag E_ALL num fs = Inr (err ''Invalid enum value'' VALUE_ERROR, fs)"
    and "clear E_ALL num fs = Inr (err ''Invalid enum value'' VALUE_ERROR, fs)"
    and "toggle E_ALL num fs = Inr (err ''Invalid enum value'' VALUE_ERROR, fs)"
  using assms by (simp_all add: has_def set_flag_def clear_def toggle_def)

lemma single_ops_at:
  assumes "isValid E_ALL num" and "bitPosition E_ALL num < length (m_bits fs)"
  shows "has E_ALL num fs = Inr (ok (m_bits fs ! bitPosition E_ALL num))"
    and "set_flag E_ALL num fs =
           Inr (ok_void, fs\<lparr>m_bits := (m_bits fs)[bitPosition E_ALL num := True]\<rparr>)"
    and "clear E_ALL num fs =
           Inr (ok_void, fs\<lparr>m_bits := (m_bits fs)[bitPosition E_ALL num := False]\<rparr>)"
    and "toggle E_ALL num fs =
           Inr (ok_void, fs\<lparr>m_bits := (m_bits fs)[bitPosition E_ALL num :=
                                         \<not> m_bits fs ! bitPosition E_ALL num]\<rparr>)"
  using assms
  by (simp_all add: has_def set_flag_def clear_def toggle_def
      bitset_test_def bitset_set_def bitset_reset_def bitset_flip_def)

text \<open>
  The candidate zero passes the mask test; its position is \<^verbatim>\<open>NUM_BITS\<close>, one past the
  bitset, and the bitset throws \<^verbatim>\<open>std::out_of_range\<close>: no result is returned.
\<close>

lemma single_ops_zero:
  assumes "FlagSet_sized E_ALL fs"
  shows "has E_ALL 0 fs = Inl out_of_range"
    and "set_flag E_ALL 0 fs = Inl out_of_range"
    and "clear E_ALL 0 fs = Inl out_of_range"
    and "toggle E_ALL 0 fs = Inl out_of_range"
  using assms
  by (simp_all add: has_def set_flag_def clear_def toggle_def isValid_def FlagSet_sized_def
      bitPosition_zero bitset_test_def bitset_set_def bitset_reset_def bitset_flip_def)

lemma isValid_single: "k < LENGTH('a) \<Longrightarrow> isValid E_ALL (push_bit k 1 :: 'a::len word) = bit E_ALL k"
  by (auto simp: isValid_iff bit_simps)


text \<open>
  C1, as the code has it: a candidate with a bit outside \<^verbatim>\<open>VALID_MASK\<close> makes each of
  \<^verbatim>\<open>has\<close>, \<^verbatim>\<open>set\<close>, \<^verbatim>\<open>clear\<close> and \<^verbatim>\<open>toggle\<close> return an error of kind \<^verbatim>\<open>VALUE_ERROR\<close> and
  leaves the stored bits as they were. A non-zero candidate inside the mask, of one bit
  or of several, is accepted, and the operation works on the lowest set bit \<open>p\<close> of the
  candidate: \<^verbatim>\<open>has\<close> returns the stored bit \<open>p\<close>, and \<^verbatim>\<open>set\<close>, \<^verbatim>\<open>clear\<close> and \<^verbatim>\<open>toggle\<close> set,
  reset and flip it and return success with no payload. For the legal single flag of
  bit \<open>k\<close> that position is \<open>k\<close>.
\<close>

theorem single_flag_domain:
  assumes "FlagSet_sized E_ALL fs"
  shows
    "(num AND NOT (VALID_MASK E_ALL) \<noteq> 0 \<longrightarrow>
        has E_ALL num fs = Inr (err ''Invalid enum value'' VALUE_ERROR)
        \<and> set_flag E_ALL num fs = Inr (err ''Invalid enum value'' VALUE_ERROR, fs)
        \<and> clear E_ALL num fs = Inr (err ''Invalid enum value'' VALUE_ERROR, fs)
        \<and> toggle E_ALL num fs = Inr (err ''Invalid enum value'' VALUE_ERROR, fs))
     \<and> (num AND NOT (VALID_MASK E_ALL) = 0 \<and> num \<noteq> 0 \<longrightarrow>
        (\<exists>p. p = bitPosition E_ALL num \<and> p < NUM_BITS E_ALL
           \<and> bit num p \<and> (\<forall>j<p. \<not> bit num j)
           \<and> has E_ALL num fs = Inr (ok (m_bits fs ! p))
           \<and> set_flag E_ALL num fs = Inr (ok_void, fs\<lparr>m_bits := (m_bits fs)[p := True]\<rparr>)
           \<and> clear E_ALL num fs = Inr (ok_void, fs\<lparr>m_bits := (m_bits fs)[p := False]\<rparr>)
           \<and> toggle E_ALL num fs
               = Inr (ok_void, fs\<lparr>m_bits := (m_bits fs)[p := \<not> m_bits fs ! p]\<rparr>)))
     \<and> (bit E_ALL k \<longrightarrow>
        has E_ALL (push_bit k 1) fs = Inr (ok (m_bits fs ! k))
        \<and> set_flag E_ALL (push_bit k 1) fs
            = Inr (ok_void, fs\<lparr>m_bits := (m_bits fs)[k := True]\<rparr>)
        \<and> clear E_ALL (push_bit k 1) fs
            = Inr (ok_void, fs\<lparr>m_bits := (m_bits fs)[k := False]\<rparr>)
        \<and> toggle E_ALL (push_bit k 1) fs
            = Inr (ok_void, fs\<lparr>m_bits := (m_bits fs)[k := \<not> m_bits fs ! k]\<rparr>))"
proof (intro conjI impI)
  assume "num AND NOT (VALID_MASK E_ALL) \<noteq> 0"
  then have inv: "\<not> isValid E_ALL num"
    by (simp add: isValid_def)
  show "has E_ALL num fs = Inr (err ''Invalid enum value'' VALUE_ERROR)"
    and "set_flag E_ALL num fs = Inr (err ''Invalid enum value'' VALUE_ERROR, fs)"
    and "clear E_ALL num fs = Inr (err ''Invalid enum value'' VALUE_ERROR, fs)"
    and "toggle E_ALL num fs = Inr (err ''Invalid enum value'' VALUE_ERROR, fs)"
    by (rule single_ops_invalid [OF inv])+
next
  assume "num AND NOT (VALID_MASK E_ALL) = 0 \<and> num \<noteq> 0"
  then have v: "isValid E_ALL num" and nz: "num \<noteq> 0"
    by (simp_all add: isValid_def)
  let ?p = "bitPosition E_ALL num"
  have p: "?p < NUM_BITS E_ALL" "bit num ?p" "\<forall>j<?p. \<not> bit num j"
    using bitPosition_valid [OF v nz] by simp_all
  then have inside: "?p < length (m_bits fs)"
    using assms by (simp add: FlagSet_sized_def)
  show "\<exists>p. p = bitPosition E_ALL num \<and> p < NUM_BITS E_ALL
           \<and> bit num p \<and> (\<forall>j<p. \<not> bit num j)
           \<and> has E_ALL num fs = Inr (ok (m_bits fs ! p))
           \<and> set_flag E_ALL num fs = Inr (ok_void, fs\<lparr>m_bits := (m_bits fs)[p := True]\<rparr>)
           \<and> clear E_ALL num fs = Inr (ok_void, fs\<lparr>m_bits := (m_bits fs)[p := False]\<rparr>)
           \<and> toggle E_ALL num fs
               = Inr (ok_void, fs\<lparr>m_bits := (m_bits fs)[p := \<not> m_bits fs ! p]\<rparr>)"
    using p single_ops_at [OF v inside] by blast
next
  assume k: "bit E_ALL k"
  then have kl: "k < LENGTH('a)"
    by (rule bit_imp_le_length)
  let ?f = "push_bit k 1 :: 'a word"
  have v: "isValid E_ALL ?f"
    using k kl by (simp only: isValid_single)
  have pos: "bitPosition E_ALL ?f = k"
    using kl by (rule bitPosition_single)
  have "k < NUM_BITS E_ALL"
    using k by (rule bit_less_NUM_BITS)
  then have inside: "bitPosition E_ALL ?f < length (m_bits fs)"
    using assms pos by (simp only: FlagSet_sized_def)
  show "has E_ALL ?f fs = Inr (ok (m_bits fs ! k))"
    and "set_flag E_ALL ?f fs = Inr (ok_void, fs\<lparr>m_bits := (m_bits fs)[k := True]\<rparr>)"
    and "clear E_ALL ?f fs = Inr (ok_void, fs\<lparr>m_bits := (m_bits fs)[k := False]\<rparr>)"
    and "toggle E_ALL ?f fs = Inr (ok_void, fs\<lparr>m_bits := (m_bits fs)[k := \<not> m_bits fs ! k]\<rparr>)"
    using single_ops_at [OF v inside] by (simp_all only: pos)
qed


text \<open>
  \<^verbatim>\<open>Permissions\<close> (32 bits, \<^verbatim>\<open>ALL = 7\<close>) with \<^verbatim>\<open>READ\<close> stored: the candidate 16 is refused,
  \<^verbatim>\<open>WRITE | EXECUTE\<close> sets bit 1, and \<^verbatim>\<open>EXECUTE\<close> toggles bit 2.
\<close>

theorem single_flag_domain_witness:
  "FlagSet_sized (7 :: 32 word) \<lparr>m_bits = [True, False, False]\<rparr>
   \<and> has (7 :: 32 word) 16 \<lparr>m_bits = [True, False, False]\<rparr>
       = Inr (err ''Invalid enum value'' VALUE_ERROR)
   \<and> set_flag (7 :: 32 word) 6 \<lparr>m_bits = [True, False, False]\<rparr>
       = Inr (ok_void, \<lparr>m_bits = [True, True, False]\<rparr>)
   \<and> toggle (7 :: 32 word) (push_bit 2 1) \<lparr>m_bits = [True, False, False]\<rparr>
       = Inr (ok_void, \<lparr>m_bits = [True, False, True]\<rparr>)"
proof -
  let ?fs = "\<lparr>m_bits = [True, False, False]\<rparr>"
  have n: "NUM_BITS (7 :: 32 word) = 3"
    by code_simp
  then have sized: "FlagSet_sized (7 :: 32 word) ?fs"
    by (simp add: FlagSet_sized_def)
  have out: "(16 :: 32 word) AND NOT (VALID_MASK 7) \<noteq> 0"
    by (simp add: VALID_MASK_def)
  have ins: "(6 :: 32 word) AND NOT (VALID_MASK 7) = 0 \<and> (6 :: 32 word) \<noteq> 0"
    by (simp add: VALID_MASK_def)
  have p: "bitPosition (7 :: 32 word) 6 = 1"
    by code_simp
  have b: "bit (7 :: 32 word) 2"
    by simp
  have 1: "has (7 :: 32 word) 16 ?fs = Inr (err ''Invalid enum value'' VALUE_ERROR)"
    using single_flag_domain [OF sized, of 16] out by blast
  have "set_flag (7 :: 32 word) 6 ?fs = Inr (ok_void, ?fs\<lparr>m_bits := (m_bits ?fs)[1 := True]\<rparr>)"
    using single_flag_domain [OF sized, of 6] ins p by auto
  then have 2: "set_flag (7 :: 32 word) 6 ?fs = Inr (ok_void, \<lparr>m_bits = [True, True, False]\<rparr>)"
    by simp
  have "toggle (7 :: 32 word) (push_bit 2 1) ?fs
      = Inr (ok_void, ?fs\<lparr>m_bits := (m_bits ?fs)[2 := \<not> m_bits ?fs ! 2]\<rparr>)"
    using single_flag_domain [OF sized, of _ 2] b by blast
  then have 3: "toggle (7 :: 32 word) (push_bit 2 1) ?fs
      = Inr (ok_void, \<lparr>m_bits = [True, False, True]\<rparr>)"
    by simp
  from sized 1 2 3 show ?thesis
    by (intro conjI)
qed

text \<open>
  C1 as stated fails on \<^verbatim>\<open>Permissions\<close>: the two-bit candidate \<^verbatim>\<open>READ | WRITE\<close> is
  answered with a success by \<^verbatim>\<open>has\<close> and by \<^verbatim>\<open>set\<close>, which sets \<^verbatim>\<open>READ\<close> alone, and the zero
  candidate ends in \<^verbatim>\<open>std::out_of_range\<close>; neither is an error of kind \<^verbatim>\<open>VALUE_ERROR\<close>.
\<close>

theorem single_flag_domain_counterexample:
  "has (7 :: 32 word) 3 \<lparr>m_bits = [True, False, False]\<rparr> = Inr (ok True)
   \<and> has (7 :: 32 word) 0 \<lparr>m_bits = [True, False, False]\<rparr> = Inl out_of_range
   \<and> set_flag (7 :: 32 word) 3 \<lparr>m_bits = [False, False, False]\<rparr>
       = Inr (ok_void, \<lparr>m_bits = [True, False, False]\<rparr>)"
  by code_simp

text \<open>
  C10: when \<^verbatim>\<open>set\<close>, \<^verbatim>\<open>clear\<close> or \<^verbatim>\<open>toggle\<close> returns an error, the candidate failed the
  \<^verbatim>\<open>isValid\<close> check, the error is of kind \<^verbatim>\<open>VALUE_ERROR\<close> and the flag set is exactly as
  before the call; \<^verbatim>\<open>has\<close> has no flag set to return, and \<^verbatim>\<open>fromEnum\<close> builds none on the
  failure path. Every candidate that fails the check takes that path.
\<close>

theorem validation_failure_atomic:
  "(set_flag E_ALL num fs = Inr (Inl e, fs') \<longrightarrow>
      fs' = fs \<and> etype e = VALUE_ERROR \<and> \<not> isValid E_ALL num)
   \<and> (clear E_ALL num fs = Inr (Inl e, fs') \<longrightarrow>
      fs' = fs \<and> etype e = VALUE_ERROR \<and> \<not> isValid E_ALL num)
   \<and> (toggle E_ALL num fs = Inr (Inl e, fs') \<longrightarrow>
      fs' = fs \<and> etype e = VALUE_ERROR \<and> \<not> isValid E_ALL num)
   \<and> (fromEnum E_ALL num = Inl e \<longrightarrow> etype e = VALUE_ERROR \<and> \<not> isValid E_ALL num)
   \<and> (\<not> isValid E_ALL num \<longrightarrow>
      set_flag E_ALL num fs = Inr (err ''Invalid enum value'' VALUE_ERROR, fs)
      \<and> clear E_ALL num fs = Inr (err ''Invalid enum value'' VALUE_ERROR, fs)
      \<and> toggle E_ALL num fs = Inr (err ''Invalid enum value'' VALUE_ERROR, fs)
      \<and> has E_ALL num fs = Inr (err ''Invalid enum value'' VALUE_ERROR)
      \<and> fromEnum E_ALL num = err ''Invalid enum value for FlagSet'' VALUE_ERROR)"
proof -
  have a: "set_flag E_ALL num fs = Inr (Inl e, fs') \<longrightarrow>
      fs' = fs \<and> etype e = VALUE_ERROR \<and> \<not> isValid E_ALL num"
    by (auto simp: set_flag_def err_def ok_void_def Error_ctor_def
        split: if_splits sum.splits)
  have b: "clear E_ALL num fs = Inr (Inl e, fs') \<longrightarrow>
      fs' = fs \<and> etype e = VALUE_ERROR \<and> \<not> isValid E_ALL num"
    by (auto simp: clear_def err_def ok_void_def Error_ctor_def
        split: if_splits sum.splits)
  have c: "toggle E_ALL num fs = Inr (Inl e, fs') \<longrightarrow>
      fs' = fs \<and> etype e = VALUE_ERROR \<and> \<not> isValid E_ALL num"
    by (auto simp: toggle_def err_def ok_void_def Error_ctor_def
        split: if_splits sum.splits)
  have d: "fromEnum E_ALL num = Inl e \<longrightarrow> etype e = VALUE_ERROR \<and> \<not> isValid E_ALL num"
    by (auto simp: fromEnum_def err_def ok_def Error_ctor_def split: if_splits)
  have e: "\<not> isValid E_ALL num \<longrightarrow>
      set_flag E_ALL num fs = Inr (err ''Invalid enum value'' VALUE_ERROR, fs)
      \<and> clear E_ALL num fs = Inr (err ''Invalid enum value'' VALUE_ERROR, fs)
      \<and> toggle E_ALL num fs = Inr (err ''Invalid enum value'' VALUE_ERROR, fs)
      \<and> has E_ALL num fs = Inr (err ''Invalid enum value'' VALUE_ERROR)
      \<and> fromEnum E_ALL num = err ''Invalid enum value for FlagSet'' VALUE_ERROR"
    by (simp add: single_ops_invalid fromEnum_def)
  show ?thesis
    by (rule conjI [OF a conjI [OF b conjI [OF c conjI [OF d e]]]])
qed

text \<open>
  The invalid flag 32 of the test suite on \<^verbatim>\<open>Permissions\<close> with \<^verbatim>\<open>READ | EXECUTE\<close> stored.
\<close>

theorem validation_failure_atomic_witness:
  "\<not> isValid (7 :: 32 word) 32
   \<and> set_flag (7 :: 32 word) 32 \<lparr>m_bits = [True, False, True]\<rparr>
       = Inr (err ''Invalid enum value'' VALUE_ERROR, \<lparr>m_bits = [True, False, True]\<rparr>)
   \<and> clear (7 :: 32 word) 32 \<lparr>m_bits = [True, False, True]\<rparr>
       = Inr (err ''Invalid enum value'' VALUE_ERROR, \<lparr>m_bits = [True, False, True]\<rparr>)
   \<and> toggle (7 :: 32 word) 32 \<lparr>m_bits = [True, False, True]\<rparr>
       = Inr (err ''Invalid enum value'' VALUE_ERROR, \<lparr>m_bits = [True, False, True]\<rparr>)
   \<and> fromEnum (7 :: 32 word) 32 = err ''Invalid enum value for FlagSet'' VALUE_ERROR"
proof -
  have inv: "\<not> isValid (7 :: 32 word) 32"
    by (simp add: isValid_def VALID_MASK_def)
  with validation_failure_atomic [of "7 :: 32 word" 32 "\<lparr>m_bits = [True, False, True]\<rparr>"]
  show ?thesis
    by blast
qed

subsection \<open>The invariant of the stored bits\<close>

lemma within_mask_sized: "within_mask E_ALL fs \<Longrightarrow> FlagSet_sized E_ALL fs"
  by (simp add: within_mask_def FlagSet_sized_def)

lemma within_mask_valid: "within_mask E_ALL fs \<Longrightarrow> isValid_inst E_ALL fs"
  by (simp add: within_mask_def isValid_inst_iff)

lemma within_mask_ctor: "within_mask E_ALL (FlagSet_ctor E_ALL x)"
  using FlagSet_ctor_sized [of E_ALL x]
  by (simp add: within_mask_def FlagSet_sized_def nth_FlagSet_ctor)

lemma within_mask_default: "within_mask E_ALL (FlagSet_default E_ALL)"
  by (simp add: within_mask_def FlagSet_default_def bitset_zero_def)

lemma within_mask_update:
  assumes "within_mask E_ALL fs" and "v \<longrightarrow> bit E_ALL p"
  shows "within_mask E_ALL (fs\<lparr>m_bits := (m_bits fs)[p := v]\<rparr>)"
proof -
  have len: "length (m_bits fs) = NUM_BITS E_ALL"
    and old: "\<And>i. i < length (m_bits fs) \<Longrightarrow> m_bits fs ! i \<Longrightarrow> bit E_ALL i"
    using assms(1) by (simp_all add: within_mask_def)
  have "bit E_ALL i" if "i < length (m_bits fs)" and "(m_bits fs)[p := v] ! i" for i
  proof (cases "i = p")
    case True
    with that have v by simp
    with assms(2) True show ?thesis by simp
  next
    case False
    with that have "m_bits fs ! i" by simp
    with that(1) show ?thesis by (rule old)
  qed
  with len show ?thesis
    by (simp add: within_mask_def)
qed

lemma bitPosition_in_mask:
  assumes "isValid E_ALL num" and "bitPosition E_ALL num < NUM_BITS E_ALL"
  shows "bit E_ALL (bitPosition E_ALL num)"
proof (cases "num = 0")
  case True
  with assms(2) show ?thesis
    by (simp add: bitPosition_zero)
next
  case False
  with assms(1) show ?thesis
    by (rule bitPosition_valid(3))
qed

lemma within_mask_set_flag:
  assumes "within_mask E_ALL fs" and "set_flag E_ALL num fs = Inr (st, fs')"
  shows "within_mask E_ALL fs'"
proof (cases "isValid E_ALL num")
  case False
  with assms show ?thesis
    by (simp add: set_flag_def)
next
  case True
  let ?p = "bitPosition E_ALL num"
  from assms(2) True have p: "?p < length (m_bits fs)"
    and fs': "fs' = fs\<lparr>m_bits := (m_bits fs)[?p := True]\<rparr>"
    by (auto simp: set_flag_def bitset_set_def split: if_splits)
  from p assms(1) have "?p < NUM_BITS E_ALL"
    by (simp add: within_mask_def)
  with True have "bit E_ALL ?p"
    by (rule bitPosition_in_mask)
  with assms(1) fs' show ?thesis
    by (simp add: within_mask_update)
qed

lemma within_mask_clear:
  assumes "within_mask E_ALL fs" and "clear E_ALL num fs = Inr (st, fs')"
  shows "within_mask E_ALL fs'"
proof (cases "isValid E_ALL num")
  case False
  with assms show ?thesis
    by (simp add: clear_def)
next
  case True
  with assms(2) have "fs' = fs\<lparr>m_bits := (m_bits fs)[bitPosition E_ALL num := False]\<rparr>"
    by (auto simp: clear_def bitset_reset_def split: if_splits)
  with assms(1) show ?thesis
    by (simp add: within_mask_update)
qed

lemma within_mask_toggle:
  assumes "within_mask E_ALL fs" and "toggle E_ALL num fs = Inr (st, fs')"
  shows "within_mask E_ALL fs'"
proof (cases "isValid E_ALL num")
  case False
  with assms show ?thesis
    by (simp add: toggle_def)
next
  case True
  let ?p = "bitPosition E_ALL num"
  from assms(2) True have p: "?p < length (m_bits fs)"
    and fs': "fs' = fs\<lparr>m_bits := (m_bits fs)[?p := \<not> m_bits fs ! ?p]\<rparr>"
    by (auto simp: toggle_def bitset_flip_def split: if_splits)
  from p assms(1) have "?p < NUM_BITS E_ALL"
    by (simp add: within_mask_def)
  with True have "bit E_ALL ?p"
    by (rule bitPosition_in_mask)
  with assms(1) fs' show ?thesis
    by (simp add: within_mask_update)
qed

lemma within_mask_setAll: "within_mask E_ALL (snd (setAll E_ALL fs))"
  by (simp add: within_mask_def setAll_def VALID_MASK_def length_bitset_of_ullong
      nth_bitset_of_ullong bit_ucast_iff)

lemma within_mask_clearAll: "within_mask E_ALL fs \<Longrightarrow> within_mask E_ALL (snd (clearAll fs))"
  by (simp add: within_mask_def clearAll_def bitset_reset_all_def)

lemma within_mask_toggleAll:
  assumes "within_mask E_ALL fs"
  shows "within_mask E_ALL (snd (toggleAll E_ALL fs))"
proof -
  let ?N = "NUM_BITS E_ALL"
  let ?m = "bitset_of_ullong ?N (ucast E_ALL)"
  have len: "length (m_bits fs) = ?N"
    and old: "\<And>i. i < ?N \<Longrightarrow> m_bits fs ! i \<Longrightarrow> bit E_ALL i"
    using assms by (simp_all add: within_mask_def)
  have m: "?m ! i \<Longrightarrow> bit E_ALL i" if "i < ?N" for i
    using that by (simp add: nth_bitset_of_ullong bit_ucast_iff)
  have bits: "m_bits (snd (toggleAll E_ALL fs)) = map2 (\<noteq>) (m_bits fs) ?m"
    by (simp add: toggleAll_def bitset_xor_def VALID_MASK_def)
  have l: "length (map2 (\<noteq>) (m_bits fs) ?m) = ?N"
    using len by (simp add: length_bitset_of_ullong)
  have "bit E_ALL i" if "i < ?N" and "map2 (\<noteq>) (m_bits fs) ?m ! i" for i
  proof -
    from that len have "m_bits fs ! i \<or> ?m ! i"
      by (auto simp: length_bitset_of_ullong)
    with that(1) old m show ?thesis by blast
  qed
  with l show ?thesis
    by (simp add: within_mask_def bits)
qed

lemma within_mask_assign:
  assumes "within_mask E_ALL a" and "within_mask E_ALL b"
  shows "within_mask E_ALL (operator_or_assign a b)"
    and "within_mask E_ALL (operator_and_assign a b)"
    and "within_mask E_ALL (operator_xor_assign a b)"
  using assms
  by (auto simp: within_mask_def operator_or_assign_def operator_and_assign_def
      operator_xor_assign_def bitset_or_def bitset_and_def bitset_xor_def)

lemma reachable_within_mask: "reachable E_ALL fs \<Longrightarrow> within_mask E_ALL fs"
proof (induction rule: reachable.induct)
  case r_default
  show ?case by (rule within_mask_default)
next
  case (r_ctor num)
  show ?case by (rule within_mask_ctor)
next
  case (r_fromUnderlying raw)
  show ?case by (simp add: fromUnderlying_def within_mask_ctor)
next
  case (r_fromEnum num fs)
  then have "fs = FlagSet_ctor E_ALL num"
    by (auto simp: fromEnum_def ok_def err_def split: if_splits)
  then show ?case by (simp add: within_mask_ctor)
next
  case (r_set fs num st fs')
  then show ?case by (blast intro: within_mask_set_flag)
next
  case (r_clear fs num st fs')
  then show ?case by (blast intro: within_mask_clear)
next
  case (r_toggle fs num st fs')
  then show ?case by (blast intro: within_mask_toggle)
next
  case (r_setAll fs)
  show ?case by (rule within_mask_setAll)
next
  case (r_clearAll fs)
  then show ?case by (simp add: within_mask_clearAll)
next
  case (r_toggleAll fs)
  then show ?case by (simp add: within_mask_toggleAll)
next
  case (r_or a b)
  show ?case by (simp add: operator_or_def within_mask_ctor)
next
  case (r_and a b)
  show ?case by (simp add: operator_and_def within_mask_ctor)
next
  case (r_xor a b)
  show ?case by (simp add: operator_xor_def within_mask_ctor)
next
  case (r_not a)
  show ?case by (simp add: operator_not_def within_mask_ctor)
next
  case (r_or_assign a b)
  then show ?case by (simp add: within_mask_assign)
next
  case (r_and_assign a b)
  then show ?case by (simp add: within_mask_assign)
next
  case (r_xor_assign a b)
  then show ?case by (simp add: within_mask_assign)
qed

text \<open>
  C4: every flag set that a constructor or factory followed by any sequence of mutating
  operations and operators produces has \<^verbatim>\<open>toUnderlying() & ~VALID_MASK == 0\<close>, that is, its
  instance \<^verbatim>\<open>isValid()\<close> is true; its bitset has the size \<^verbatim>\<open>NUM_BITS\<close> of its type.
\<close>

theorem reachable_valid:
  assumes "reachable E_ALL fs"
  shows "(toUnderlying fs :: 'a::len word) AND NOT (VALID_MASK E_ALL) = 0
    \<and> isValid_inst E_ALL fs \<and> FlagSet_sized E_ALL fs"
proof -
  have w: "within_mask E_ALL fs"
    using assms by (rule reachable_within_mask)
  then have v: "isValid_inst E_ALL fs"
    by (rule within_mask_valid)
  then have "(toUnderlying fs :: 'a word) AND NOT (VALID_MASK E_ALL) = 0"
    by (simp add: isValid_inst_def)
  with v w show ?thesis
    by (simp add: within_mask_sized)
qed

text \<open>
  \<^verbatim>\<open>Permissions\<close>: the default flag set, then \<^verbatim>\<open>set( READ )\<close>, then \<^verbatim>\<open>toggleAll()\<close>.
\<close>

theorem reachable_valid_witness:
  "reachable (7 :: 32 word) \<lparr>m_bits = [False, True, True]\<rparr>
   \<and> (toUnderlying \<lparr>m_bits = [False, True, True]\<rparr> :: 32 word) AND NOT (VALID_MASK 7) = 0
   \<and> isValid_inst (7 :: 32 word) \<lparr>m_bits = [False, True, True]\<rparr>
   \<and> FlagSet_sized (7 :: 32 word) \<lparr>m_bits = [False, True, True]\<rparr>"
proof -
  have d: "FlagSet_default (7 :: 32 word) = \<lparr>m_bits = [False, False, False]\<rparr>"
    by code_simp
  have s: "set_flag (7 :: 32 word) 1 \<lparr>m_bits = [False, False, False]\<rparr>
      = Inr (ok_void, \<lparr>m_bits = [True, False, False]\<rparr>)"
    by code_simp
  have t: "snd (toggleAll (7 :: 32 word) \<lparr>m_bits = [True, False, False]\<rparr>)
      = \<lparr>m_bits = [False, True, True]\<rparr>"
    by code_simp
  have "reachable (7 :: 32 word) \<lparr>m_bits = [False, False, False]\<rparr>"
    using r_default [of "7 :: 32 word"] by (simp only: d)
  then have "reachable (7 :: 32 word) \<lparr>m_bits = [True, False, False]\<rparr>"
    using s by (rule r_set)
  then have "reachable (7 :: 32 word) (snd (toggleAll (7 :: 32 word) \<lparr>m_bits = [True, False, False]\<rparr>))"
    by (rule r_toggleAll)
  then have r: "reachable (7 :: 32 word) \<lparr>m_bits = [False, True, True]\<rparr>"
    by (simp only: t)
  from r reachable_valid [OF r] show ?thesis
    by (intro conjI) simp_all
qed

subsection \<open>The bitwise operators\<close>

lemma within_mask_iff:
  assumes "LENGTH('a::len) \<le> 64"
  shows "within_mask (E_ALL :: 'a word) fs = (FlagSet_sized E_ALL fs \<and> isValid_inst E_ALL fs)"
proof
  assume "within_mask E_ALL fs"
  then show "FlagSet_sized E_ALL fs \<and> isValid_inst E_ALL fs"
    by (simp add: within_mask_sized within_mask_valid)
next
  assume a: "FlagSet_sized E_ALL fs \<and> isValid_inst E_ALL fs"
  then have n: "length (m_bits fs) = NUM_BITS E_ALL"
    by (simp add: FlagSet_sized_def)
  have "NUM_BITS E_ALL \<le> LENGTH('a)"
    by (rule NUM_BITS_le_length)
  with assms n have "i < LENGTH('a) \<and> i < 64" if "i < length (m_bits fs)" for i
    using that by simp
  with a n show "within_mask E_ALL fs"
    by (simp add: within_mask_def isValid_inst_iff)
qed

lemma FlagSet_ctor_cong:
  "x AND E_ALL = y AND E_ALL \<Longrightarrow> FlagSet_ctor E_ALL x = FlagSet_ctor E_ALL y"
  by (simp add: FlagSet_ctor_def VALID_MASK_def)

lemma toUnderlying_in_mask:
  "isValid_inst E_ALL a \<Longrightarrow> (toUnderlying a :: 'a::len word) AND E_ALL = toUnderlying a"
proof -
  assume "isValid_inst E_ALL a"
  then have "\<forall>i. bit (toUnderlying a :: 'a word) i \<longrightarrow> bit E_ALL i"
    by (simp add: isValid_inst_def isValid_def [symmetric] isValid_iff)
  then show ?thesis
    by (intro bit_word_eqI) (auto simp: bit_and_iff)
qed

text \<open>
  C5: for flag sets \<open>a\<close> and \<open>b\<close> with \<^verbatim>\<open>isValid()\<close> true, the results of \<^verbatim>\<open>|\<close>, \<^verbatim>\<open>&\<close>, \<^verbatim>\<open>^\<close>,
  \<^verbatim>\<open>~\<close> and of the compound forms have \<^verbatim>\<open>isValid()\<close> true; \<^verbatim>\<open>~(~a)\<close> is \<open>a\<close> and \<open>a\<close> \<^verbatim>\<open>&\<close> the
  full set is \<open>a\<close>; and the operators are the bitwise operations on the underlying
  values, the complement taken inside \<^verbatim>\<open>VALID_MASK\<close>, so the Boolean laws of the words
  below the mask carry over. \<^verbatim>\<open>Underlying\<close> is an unsigned type of at most 64 bits.
\<close>

theorem algebra_closure:
  assumes len: "LENGTH('a::len) \<le> 64"
    and a: "FlagSet_sized (E_ALL :: 'a word) a" "isValid_inst E_ALL a"
    and b: "FlagSet_sized E_ALL b" "isValid_inst E_ALL b"
  shows "isValid_inst E_ALL (operator_or E_ALL a b)
    \<and> isValid_inst E_ALL (operator_and E_ALL a b)
    \<and> isValid_inst E_ALL (operator_xor E_ALL a b)
    \<and> isValid_inst E_ALL (operator_not E_ALL a)
    \<and> isValid_inst E_ALL (operator_or_assign a b)
    \<and> isValid_inst E_ALL (operator_and_assign a b)
    \<and> isValid_inst E_ALL (operator_xor_assign a b)
    \<and> operator_not E_ALL (operator_not E_ALL a) = a
    \<and> operator_and E_ALL a (fromUnderlying E_ALL (VALID_MASK E_ALL)) = a
    \<and> (toUnderlying (operator_or E_ALL a b) :: 'a word) = toUnderlying a OR toUnderlying b
    \<and> (toUnderlying (operator_and E_ALL a b) :: 'a word) = toUnderlying a AND toUnderlying b
    \<and> (toUnderlying (operator_xor E_ALL a b) :: 'a word) = toUnderlying a XOR toUnderlying b
    \<and> (toUnderlying (operator_not E_ALL a) :: 'a word)
        = NOT (toUnderlying a) AND VALID_MASK E_ALL"
proof -
  let ?ua = "toUnderlying a :: 'a word" and ?ub = "toUnderlying b :: 'a word"
  have ma: "?ua AND E_ALL = ?ua" and mb: "?ub AND E_ALL = ?ub"
    using a(2) b(2) by (simp_all add: toUnderlying_in_mask)
  have wa: "within_mask E_ALL a" and wb: "within_mask E_ALL b"
    using a b by (simp_all add: within_mask_iff [OF len])
  have c1: "isValid_inst E_ALL (operator_or E_ALL a b)"
    and c2: "isValid_inst E_ALL (operator_and E_ALL a b)"
    and c3: "isValid_inst E_ALL (operator_xor E_ALL a b)"
    and c4: "isValid_inst E_ALL (operator_not E_ALL a)"
    by (simp_all add: operator_or_def operator_and_def operator_xor_def operator_not_def
        isValid_inst_FlagSet_ctor)
  have c5: "isValid_inst E_ALL (operator_or_assign a b)"
    and c6: "isValid_inst E_ALL (operator_and_assign a b)"
    and c7: "isValid_inst E_ALL (operator_xor_assign a b)"
    using within_mask_assign [OF wa wb] by (simp_all add: within_mask_valid)
  have id: "FlagSet_ctor E_ALL ?ua = a"
    using len a by (rule FlagSet_ctor_toUnderlying)
  have u_not: "(toUnderlying (operator_not E_ALL a) :: 'a word) = NOT ?ua AND E_ALL"
    by (simp add: operator_not_def VALID_MASK_def toUnderlying_FlagSet_ctor [OF len] and.assoc)
  have "operator_not E_ALL (operator_not E_ALL a)
      = FlagSet_ctor E_ALL (NOT (NOT ?ua AND E_ALL) AND E_ALL)"
    by (simp only: operator_not_def [of E_ALL "operator_not E_ALL a"] u_not VALID_MASK_def)
  also have "\<dots> = FlagSet_ctor E_ALL ?ua"
  proof (rule FlagSet_ctor_cong)
    show "(NOT (NOT ?ua AND E_ALL) AND E_ALL) AND E_ALL = ?ua AND E_ALL"
      by (rule bit_word_eqI) (auto simp: bit_and_iff bit_or_iff bit_not_iff)
  qed
  finally have l1: "operator_not E_ALL (operator_not E_ALL a) = a"
    by (simp only: id)
  have "(toUnderlying (fromUnderlying E_ALL (VALID_MASK E_ALL)) :: 'a word) = E_ALL"
    by (simp add: fromUnderlying_eq_ctor VALID_MASK_def toUnderlying_FlagSet_ctor [OF len])
  then have "operator_and E_ALL a (fromUnderlying E_ALL (VALID_MASK E_ALL))
      = FlagSet_ctor E_ALL (?ua AND E_ALL)"
    by (simp only: operator_and_def)
  then have l2: "operator_and E_ALL a (fromUnderlying E_ALL (VALID_MASK E_ALL)) = a"
    by (simp only: ma id)
  have "(?ua OR ?ub) AND E_ALL = (?ua AND E_ALL) OR (?ub AND E_ALL)"
    by (rule bit_word_eqI) (auto simp: bit_and_iff bit_or_iff)
  then have h1: "(toUnderlying (operator_or E_ALL a b) :: 'a word) = ?ua OR ?ub"
    by (simp add: operator_or_def toUnderlying_FlagSet_ctor [OF len] ma mb)
  have "(?ua AND ?ub) AND E_ALL = ?ua AND (?ub AND E_ALL)"
    by (simp add: and.assoc)
  then have h2: "(toUnderlying (operator_and E_ALL a b) :: 'a word) = ?ua AND ?ub"
    by (simp add: operator_and_def toUnderlying_FlagSet_ctor [OF len] mb)
  have "(?ua XOR ?ub) AND E_ALL = (?ua AND E_ALL) XOR (?ub AND E_ALL)"
    by (rule bit_word_eqI) (auto simp: bit_and_iff bit_xor_iff)
  then have h3: "(toUnderlying (operator_xor E_ALL a b) :: 'a word) = ?ua XOR ?ub"
    by (simp add: operator_xor_def toUnderlying_FlagSet_ctor [OF len] ma mb)
  have h4: "(toUnderlying (operator_not E_ALL a) :: 'a word) = NOT ?ua AND VALID_MASK E_ALL"
    using u_not by (simp add: VALID_MASK_def)
  from c1 c2 c3 c4 c5 c6 c7 l1 l2 h1 h2 h3 h4 show ?thesis
    by (intro conjI)
qed


text \<open>
  The scenario of \<^verbatim>\<open>Permissions\<close>: \<^verbatim>\<open>READ | WRITE\<close> and \<^verbatim>\<open>WRITE | EXECUTE\<close> meet in \<^verbatim>\<open>WRITE\<close>.
\<close>

theorem algebra_closure_witness:
  "LENGTH(32) \<le> 64
   \<and> FlagSet_sized (7 :: 32 word) \<lparr>m_bits = [True, True, False]\<rparr>
   \<and> isValid_inst (7 :: 32 word) \<lparr>m_bits = [True, True, False]\<rparr>
   \<and> FlagSet_sized (7 :: 32 word) \<lparr>m_bits = [False, True, True]\<rparr>
   \<and> isValid_inst (7 :: 32 word) \<lparr>m_bits = [False, True, True]\<rparr>
   \<and> isValid_inst (7 :: 32 word)
        (operator_xor (7 :: 32 word) \<lparr>m_bits = [True, True, False]\<rparr>
           \<lparr>m_bits = [False, True, True]\<rparr>)
   \<and> operator_not (7 :: 32 word) (operator_not (7 :: 32 word) \<lparr>m_bits = [True, True, False]\<rparr>)
       = \<lparr>m_bits = [True, True, False]\<rparr>
   \<and> operator_and (7 :: 32 word) \<lparr>m_bits = [True, True, False]\<rparr>
        (fromUnderlying (7 :: 32 word) (VALID_MASK 7)) = \<lparr>m_bits = [True, True, False]\<rparr>
   \<and> (toUnderlying (operator_and (7 :: 32 word) \<lparr>m_bits = [True, True, False]\<rparr>
          \<lparr>m_bits = [False, True, True]\<rparr>) :: 32 word) = 2"
proof -
  let ?a = "\<lparr>m_bits = [True, True, False]\<rparr>" and ?b = "\<lparr>m_bits = [False, True, True]\<rparr>"
  have len: "LENGTH(32) \<le> 64"
    by simp
  have sa: "FlagSet_sized (7 :: 32 word) ?a" and sb: "FlagSet_sized (7 :: 32 word) ?b"
    by code_simp+
  have va: "isValid_inst (7 :: 32 word) ?a" and vb: "isValid_inst (7 :: 32 word) ?b"
    by code_simp+
  have ua: "(toUnderlying ?a :: 32 word) = 3" and ub: "(toUnderlying ?b :: 32 word) = 6"
    by code_simp+
  note inst = algebra_closure [OF len sa va sb vb]
  from inst have 1: "isValid_inst (7 :: 32 word) (operator_xor (7 :: 32 word) ?a ?b)"
    by blast
  from inst have 2: "operator_not (7 :: 32 word) (operator_not (7 :: 32 word) ?a) = ?a"
    by blast
  from inst have 3: "operator_and (7 :: 32 word) ?a (fromUnderlying (7 :: 32 word) (VALID_MASK 7)) = ?a"
    by blast
  from inst have "(toUnderlying (operator_and (7 :: 32 word) ?a ?b) :: 32 word)
      = toUnderlying ?a AND toUnderlying ?b"
    by blast
  then have 4: "(toUnderlying (operator_and (7 :: 32 word) ?a ?b) :: 32 word) = 2"
    by (simp only: ua ub) simp
  from len sa va sb vb 1 2 3 4 show ?thesis
    by (intro conjI)
qed

subsection \<open>Iteration\<close>

lemma stored_positions_done: "N \<le> i \<Longrightarrow> stored_positions i N b = []"
  by (simp add: stored_positions_def)

lemma stored_positions_step:
  "i < N \<Longrightarrow> stored_positions i N b =
     (if b ! i then i # stored_positions (i + 1) N b else stored_positions (i + 1) N b)"
  by (simp add: stored_positions_def upt_conv_Cons)

lemma advance_stop: "\<not> (i < N \<and> \<not> b ! i) \<Longrightarrow> advance N b i = i"
  by (subst advance.simps) (rule if_not_P)

lemma fold_snoc: "fold (\<lambda>x acc. acc @ [x]) xs acc = acc @ xs"
  by (induction xs arbitrary: acc) simp_all

lemma advance_skip: "i < N \<Longrightarrow> \<not> b ! i \<Longrightarrow> advance N b i = advance N b (i + 1)"
  by (subst advance.simps) simp

lemma forEach_loop_fold:
  "forEach_loop i N b func s = fold func (map flag_of_index (stored_positions i N b)) s"
proof (induction i N b func s rule: forEach_loop.induct)
  case (1 i N b func s)
  show ?case
  proof (cases "i < N")
    case False
    then have "forEach_loop i N b func s = s"
      by (subst forEach_loop.simps) simp
    with False show ?thesis
      by (simp add: stored_positions_done)
  next
    case True
    then have "forEach_loop i N b func s
        = forEach_loop (i + 1) N b func (if b ! i then func (flag_of_index i) s else s)"
      by (subst forEach_loop.simps) simp
    also have "\<dots> = fold func (map flag_of_index (stored_positions (i + 1) N b))
        (if b ! i then func (flag_of_index i) s else s)"
      using True by (rule "1.IH")
    also have "\<dots> = fold func (map flag_of_index (stored_positions i N b)) s"
      using True by (simp add: stored_positions_step [of i N b])
    finally show ?thesis .
  qed
qed

lemma range_for_from:
  "i \<le> N \<Longrightarrow>
   range_for N \<lparr>m_index = advance N b i, m_bits_ref = b\<rparr>
     \<lparr>m_index = N, m_bits_ref = b\<rparr> seen
   = Some (seen @ map flag_of_index (stored_positions i N b))"
proof (induction "N - i" arbitrary: i seen)
  case 0
  then have i: "i = N" by simp
  have "advance N b N = N"
    by (simp add: advance_stop)
  then show ?case
    using i by (subst range_for.simps) (simp add: Iterator_neq_def stored_positions_done)
next
  case (Suc d)
  then have lt: "i < N" and d: "d = N - (i + 1)" and le: "i + 1 \<le> N"
    by simp_all
  note IH = Suc.hyps(1) [OF d le]
  show ?case
  proof (cases "b ! i")
    case False
    with lt have "advance N b i = advance N b (i + 1)"
      by (rule advance_skip)
    with IH [of seen] lt False show ?thesis
      by (simp add: stored_positions_step [of i N b])
  next
    case True
    then have a: "advance N b i = i"
      by (simp add: advance_stop)
    have "range_for N \<lparr>m_index = i, m_bits_ref = b\<rparr> \<lparr>m_index = N, m_bits_ref = b\<rparr> seen
        = range_for N \<lparr>m_index = advance N b (i + 1), m_bits_ref = b\<rparr>
            \<lparr>m_index = N, m_bits_ref = b\<rparr> (seen @ [flag_of_index i])"
      using lt
      by (subst range_for.simps)
         (simp add: Iterator_neq_def Iterator_incr_def Iterator_deref_def)
    also have "\<dots> = Some ((seen @ [flag_of_index i])
        @ map flag_of_index (stored_positions (i + 1) N b))"
      by (rule IH)
    also have "\<dots> = Some (seen @ map flag_of_index (stored_positions i N b))"
      using lt True by (simp add: stored_positions_step [of i N b])
    finally show ?thesis
      by (simp only: a)
  qed
qed

text \<open>
  The range-based \<^verbatim>\<open>for\<close> ends for every flag set, and it visits the positions of the
  stored bits in ascending order, as \<^verbatim>\<open>forEach\<close> does: the two traversals produce the same
  sequence, for every callback.
\<close>

lemma iterate_eq:
  "iterate E_ALL fs
     = Some (map flag_of_index (stored_positions 0 (NUM_BITS E_ALL) (m_bits fs)))"
proof -
  have "advance (NUM_BITS E_ALL) (m_bits fs) (NUM_BITS E_ALL) = NUM_BITS E_ALL"
    by (simp add: advance_stop)
  then show ?thesis
    using range_for_from [of 0 "NUM_BITS E_ALL" "m_bits fs" "[]"]
    by (simp add: iterate_def FlagSet_begin_def FlagSet_end_def Iterator_ctor_def)
qed

lemma forEach_eq:
  "forEach E_ALL fs func s
     = fold func (map flag_of_index (stored_positions 0 (NUM_BITS E_ALL) (m_bits fs))) s"
  by (simp add: forEach_def forEach_loop_fold)

lemma forEach_calls_eq:
  "forEach_calls E_ALL fs
     = map flag_of_index (stored_positions 0 (NUM_BITS E_ALL) (m_bits fs))"
  by (simp add: forEach_calls_def forEach_eq fold_snoc)

lemma iterate_forEach_agree: "iterate E_ALL fs = Some (forEach_calls E_ALL fs)"
  by (simp add: iterate_eq forEach_calls_eq)

lemma iterate_bounded:
  "iterate E_ALL fs = Some xs \<Longrightarrow> length xs \<le> NUM_BITS E_ALL"
proof -
  assume "iterate E_ALL fs = Some xs"
  then have "length xs = length (stored_positions 0 (NUM_BITS E_ALL) (m_bits fs))"
    by (auto simp: iterate_eq)
  also have "\<dots> \<le> length [0..<NUM_BITS E_ALL]"
    unfolding stored_positions_def by (rule length_filter_le)
  finally show ?thesis by simp
qed

text \<open>
  The flag built for position \<open>i\<close> is the single bit \<open>i\<close> when the \<^verbatim>\<open>int\<close> shift does not
  reach the sign bit, or when \<^verbatim>\<open>Underlying\<close> is not wider than \<^verbatim>\<open>int\<close>.
\<close>

lemma flag_of_index_single:
  assumes "i < 31 \<or> (i < 32 \<and> LENGTH('a::len) \<le> 32)"
  shows "(flag_of_index i :: 'a word option) = Some (push_bit i 1)"
proof -
  have i: "i < 32"
    using assms by auto
  have "(scast (push_bit i (1 :: 32 word)) :: 'a word) = push_bit i 1"
  proof (rule bit_word_eqI)
    fix n assume n: "n < LENGTH('a)"
    show "bit (scast (push_bit i (1 :: 32 word)) :: 'a word) n = bit (push_bit i 1 :: 'a word) n"
      using assms n i by (auto simp: bit_simps min_def)
  qed
  with i show ?thesis
    by (simp add: flag_of_index_def shl_one_def)
qed


lemma stored_positions_less: "j \<in> set (stored_positions i N b) \<Longrightarrow> j < N"
  by (simp add: stored_positions_def)

lemma iterate_single_bits:
  assumes "LENGTH('a::len) \<le> 32 \<or> NUM_BITS (E_ALL :: 'a word) \<le> 31"
  shows "iterate E_ALL fs
     = Some (map (\<lambda>i. Some (push_bit i 1))
              (stored_positions 0 (NUM_BITS E_ALL) (m_bits fs)))"
proof -
  have "(flag_of_index j :: 'a word option) = Some (push_bit j 1)"
    if "j \<in> set (stored_positions 0 (NUM_BITS E_ALL) (m_bits fs))" for j
  proof -
    from that have "j < NUM_BITS E_ALL"
      by (rule stored_positions_less)
    moreover have "NUM_BITS E_ALL \<le> LENGTH('a)"
      by (rule NUM_BITS_le_length)
    ultimately have "j < 31 \<or> (j < 32 \<and> LENGTH('a) \<le> 32)"
      using assms by auto
    then show ?thesis
      by (rule flag_of_index_single)
  qed
  then show ?thesis
    by (simp add: iterate_eq)
qed

text \<open>
  C6 on an enumeration of 64 bits with a flag at bit 31,
  \<^verbatim>\<open>enum class Wide : u64 { LOW = 1, HIGH = 0x80000000, ALL = LOW | HIGH }\<close>, and the flag
  set \<^verbatim>\<open>FlagSet< Wide >( Wide::ALL )\<close>: the stored flags are \<^verbatim>\<open>LOW\<close> and \<^verbatim>\<open>HIGH\<close>, and both
  traversals end and agree, but for bit 31 they produce the sign-extended
  \<^verbatim>\<open>0xFFFFFFFF80000000\<close> of \<^verbatim>\<open>1 << 31\<close>, which is not the single-bit flag \<^verbatim>\<open>HIGH\<close> and is
  not a value inside the mask.
\<close>

theorem iteration_wide_enum:
  "iterate (0x80000001 :: 64 word) (FlagSet_ctor (0x80000001 :: 64 word) 0x80000001)
     = Some [Some 1, Some 0xFFFFFFFF80000000]
   \<and> forEach_calls (0x80000001 :: 64 word) (FlagSet_ctor (0x80000001 :: 64 word) 0x80000001)
     = [Some 1, Some 0xFFFFFFFF80000000]
   \<and> has (0x80000001 :: 64 word) 0x80000000
        (FlagSet_ctor (0x80000001 :: 64 word) 0x80000001) = Inr (ok True)
   \<and> (0xFFFFFFFF80000000 :: 64 word) \<noteq> 0x80000000
   \<and> isValid (0x80000001 :: 64 word) 0xFFFFFFFF80000000 = False"
  by code_simp

end
